theory Spec2Isabelle
  imports Complex_Main "HOL-Library.Word"
begin

section \<open>JavaScript values\<close>

text \<open>
  The chat actor (class \<open>Chat\<close> of the server) works on values that \<open>JSON.parse\<close>
  returns and on the properties read from them. TypeScript's types are erased when the
  code runs, so a field declared \<open>string\<close> can hold any value; the validator exists for
  that reason. The model keeps the run-time view.

  A JavaScript string is a sequence of UTF-16 code units and \<open>.length\<close> counts them.
\<close>

type_synonym jstring = "16 word list"

definition js :: "string \<Rightarrow> jstring" where
  "js s = map (\<lambda>c. of_nat (of_char c)) s"

datatype jsnum = Finite rat | PosInfinity | NegInfinity | NaN

datatype jsval =
    JUndefined
  | JNull
  | JBool bool
  | JNum jsnum
  | JStr jstring
  | JArr "jsval list"
  | JObj "(jstring \<times> jsval) list"

datatype jstype = TUndefined | TObject | TBoolean | TNumber | TString

fun typeof :: "jsval \<Rightarrow> jstype" where
  "typeof JUndefined = TUndefined"
| "typeof JNull = TObject"
| "typeof (JBool b) = TBoolean"
| "typeof (JNum n) = TNumber"
| "typeof (JStr s) = TString"
| "typeof (JArr xs) = TObject"
| "typeof (JObj ps) = TObject"

text \<open>Truthiness, as \<open>!x\<close> tests it: \<open>undefined\<close>, \<open>null\<close>, \<open>false\<close>, \<open>0\<close>, \<open>NaN\<close>
  and the empty string are falsy.\<close>

fun truthy :: "jsval \<Rightarrow> bool" where
  "truthy JUndefined = False"
| "truthy JNull = False"
| "truthy (JBool b) = b"
| "truthy (JNum n) = (n \<noteq> Finite 0 \<and> n \<noteq> NaN)"
| "truthy (JStr s) = (s \<noteq> [])"
| "truthy (JArr xs) = True"
| "truthy (JObj ps) = True"

text \<open>Strict equality \<open>===\<close>. Two objects are equal only when they are the same
  reference; the values compared here come from different calls of \<open>JSON.parse\<close> or
  from stored rows, so two objects or arrays are never the same reference.\<close>

fun strict_eq :: "jsval \<Rightarrow> jsval \<Rightarrow> bool" where
  "strict_eq JUndefined JUndefined = True"
| "strict_eq JNull JNull = True"
| "strict_eq (JBool a) (JBool b) = (a = b)"
| "strict_eq (JNum a) (JNum b) = (a = b \<and> a \<noteq> NaN)"
| "strict_eq (JStr a) (JStr b) = (a = b)"
| "strict_eq _ _ = False"

text \<open>What the code can throw: an instance of \<open>Error\<close> with its message, or any
  other value.\<close>

datatype exn = JsError jstring | JsThrown jsval

text \<open>Reading a property \<open>v.k\<close>, for the keys the server reads (\<open>type\<close>, \<open>id\<close>,
  \<open>user\<close>, \<open>content\<close>, \<open>role\<close>, \<open>timestamp\<close>): a TypeError on \<open>null\<close> and
  \<open>undefined\<close>, \<open>undefined\<close> where the property is absent.\<close>

fun get_prop :: "jsval \<Rightarrow> jstring \<Rightarrow> exn + jsval" where
  "get_prop JUndefined k = Inl (JsError (js ''Cannot read properties of undefined''))"
| "get_prop JNull k = Inl (JsError (js ''Cannot read properties of null''))"
| "get_prop (JObj ps) k = Inr (case map_of ps k of None \<Rightarrow> JUndefined | Some v \<Rightarrow> v)"
| "get_prop _ k = Inr JUndefined"

definition field :: "jsval \<Rightarrow> jstring \<Rightarrow> jsval" where
  "field v k = (case get_prop v k of Inl e \<Rightarrow> JUndefined | Inr x \<Rightarrow> x)"

text \<open>\<open>String.prototype.trim\<close> removes WhiteSpace and LineTerminator code units from
  both ends.\<close>

definition is_whitespace :: "16 word \<Rightarrow> bool" where
  "is_whitespace c =
     (c = 0x9 \<or> c = 0xA \<or> c = 0xB \<or> c = 0xC \<or> c = 0xD \<or> c = 0x20 \<or> c = 0xA0
      \<or> c = 0x1680 \<or> (0x2000 \<le> c \<and> c \<le> 0x200A) \<or> c = 0x2028 \<or> c = 0x2029
      \<or> c = 0x202F \<or> c = 0x205F \<or> c = 0x3000 \<or> c = 0xFEFF)"

definition trim :: "jstring \<Rightarrow> jstring" where
  "trim s = rev (dropWhile is_whitespace (rev (dropWhile is_whitespace s)))"

text \<open>\<open>Array.prototype.findIndex\<close>: the first index whose element satisfies the
  predicate; \<open>None\<close> stands for \<open>-1\<close>.\<close>

fun findIndex :: "('a \<Rightarrow> bool) \<Rightarrow> 'a list \<Rightarrow> nat option" where
  "findIndex p [] = None"
| "findIndex p (x # xs) =
     (if p x then Some 0 else (case findIndex p xs of None \<Rightarrow> None | Some i \<Rightarrow> Some (Suc i)))"

section \<open>Data model\<close>

text \<open>\<open>ChatMessage\<close> of \<open>shared.ts\<close>, with every field as it is at run time. Its
  field \<open>id\<close> is \<open>msg_id\<close> here, \<open>id\<close> being HOL's identity function.\<close>

record ChatMessage =
  msg_id :: jsval
  content :: jsval
  user :: jsval
  role :: jsval
  timestamp :: jsval

text \<open>\<open>saveMessage(parsed)\<close> hands the parsed object over as a \<open>ChatMessage\<close>; the
  five fields are the properties the server reads from it. (The object kept in the array
  also carries \<open>type\<close> and whatever else the client sent; the server never reads
  those.)\<close>

definition as_ChatMessage :: "jsval \<Rightarrow> ChatMessage" where
  "as_ChatMessage v =
     \<lparr>msg_id = field v (js ''id''), content = field v (js ''content''),
      user = field v (js ''user''), role = field v (js ''role''),
      timestamp = field v (js ''timestamp'')\<rparr>"

definition MAX_MESSAGES :: nat where "MAX_MESSAGES = 1000"
definition MAX_MESSAGE_LENGTH :: nat where "MAX_MESSAGE_LENGTH = 5000"
definition MAX_USERNAME_LENGTH :: nat where "MAX_USERNAME_LENGTH = 50"
definition RATE_LIMIT_MESSAGES :: int where "RATE_LIMIT_MESSAGES = 10"
definition RATE_LIMIT_WINDOW_MS :: int where "RATE_LIMIT_WINDOW_MS = 10000"

record RateLimitTracker =
  count :: int
  windowStart :: int

subsection \<open>Durable storage\<close>

text \<open>
  The SQL engine is an external collaborator. The model keeps the table \<open>messages\<close>
  (primary key \<open>id\<close>) as a map from the id to the other four columns, and gives the
  two statements of \<open>saveMessage\<close> and \<open>deleteMessage\<close> their SQL meaning. The other
  four columns hold the JavaScript values bound to their parameters.

  The column \<open>id\<close> is declared \<open>TEXT\<close>, so SQLite applies TEXT affinity to the value
  bound for it, in \<open>VALUES (?, ...)\<close> and in \<open>WHERE id = ?\<close> alike: a string is taken
  as it is, \<open>NULL\<close> equals no id, and any other value is taken by its text form (the
  number 5 is compared as the text \<open>5.0\<close>). The text form of a value that is not a
  string is the engine's business: \<open>id_text\<close> is that function of the engine, \<open>None\<close>
  for a value that equals no id. \<open>bound_id\<close> is the key a bound value stands for.

  Whether a call of \<open>sql.exec\<close> raises is the environment's choice: \<open>faults\<close> is its
  schedule, one entry per call, \<open>Some e\<close> for a call that throws \<open>e\<close> and changes
  nothing; past the end of the schedule every call succeeds. \<open>issued\<close> records the
  statements in the order the code issues them.
\<close>

record Row =
  col_user :: jsval
  col_role :: jsval
  col_content :: jsval
  col_timestamp :: jsval

datatype sql_stmt =
    DeleteWhereId jsval
      \<comment> \<open>\<open>DELETE FROM messages WHERE id = ?\<close>\<close>
  | InsertOnConflict jsval jsval jsval jsval jsval jsval jsval
      \<comment> \<open>\<open>INSERT INTO messages (id, user, role, content, timestamp) VALUES (?, ?, ?, ?, ?)
          ON CONFLICT (id) DO UPDATE SET content = ?, timestamp = ?\<close>\<close>

fun bound_id :: "(jsval \<Rightarrow> jstring option) \<Rightarrow> jsval \<Rightarrow> jsval option" where
  "bound_id txt (JStr s) = Some (JStr s)"
| "bound_id txt JNull = None"
| "bound_id txt v = map_option JStr (txt v)"

text \<open>\<open>DELETE\<close> removes the row whose id equals the bound value, if there is one.
  \<open>INSERT ... ON CONFLICT\<close> adds the row under the bound id, or, when a row has that
  id, sets its content and timestamp from the sixth and seventh parameter. (With a
  \<open>NULL\<close> id SQLite would add a row that no id equals; this table has no key for it,
  and \<open>saveMessage\<close> binds an id only after it has validated it as a string.)\<close>

fun sql_run ::
  "(jsval \<Rightarrow> jstring option) \<Rightarrow> sql_stmt \<Rightarrow> (jsval \<rightharpoonup> Row) \<Rightarrow> (jsval \<rightharpoonup> Row)" where
  "sql_run txt (DeleteWhereId v) t =
     (case bound_id txt v of None \<Rightarrow> t | Some k \<Rightarrow> t(k := None))"
| "sql_run txt (InsertOnConflict v u r c ts c' ts') t =
     (case bound_id txt v of
        None \<Rightarrow> t
      | Some k \<Rightarrow>
          (case t k of
             None \<Rightarrow>
               t(k \<mapsto> \<lparr>col_user = u, col_role = r, col_content = c, col_timestamp = ts\<rparr>)
           | Some row \<Rightarrow> t(k \<mapsto> row\<lparr>col_content := c', col_timestamp := ts'\<rparr>)))"

record SqlStorage =
  table :: "jsval \<rightharpoonup> Row"
  faults :: "exn option list"
  issued :: "sql_stmt list"
  id_text :: "jsval \<Rightarrow> jstring option"

definition sql_exec :: "sql_stmt \<Rightarrow> SqlStorage \<Rightarrow> exn option \<times> SqlStorage" where
  "sql_exec q db =
     (case faults db of
        [] \<Rightarrow>
          (None, db\<lparr>table := sql_run (id_text db) q (table db), issued := issued db @ [q]\<rparr>)
      | None # fs \<Rightarrow>
          (None, db\<lparr>table := sql_run (id_text db) q (table db), faults := fs,
                    issued := issued db @ [q]\<rparr>)
      | Some e # fs \<Rightarrow> (Some e, db\<lparr>faults := fs, issued := issued db @ [q]\<rparr>))"

subsection \<open>The actor's state and what it sends\<close>

type_synonym WSMessage = jstring

record Chat =
  messages :: "ChatMessage list"
  rateLimitMap :: "jstring \<rightharpoonup> RateLimitTracker"
  connectedUsers :: "jstring \<rightharpoonup> jsval"
  storage :: SqlStorage

text \<open>\<open>connection.send(JSON.stringify({type: "error", error: e}))\<close> is
  \<open>Send c (ErrorEvent e)\<close>; \<open>this.broadcast(message, exclude)\<close> is
  \<open>Broadcast message exclude\<close>. The handler's result lists what it sent, in order; the
  transport itself is outside the model and its calls are taken to return.\<close>

datatype event = ErrorEvent jstring

datatype effect = Send jstring event | Broadcast WSMessage "jstring list"

text \<open>The transport's broadcast delivers to every open connection that is not
  excluded.\<close>

fun receivers :: "jstring list \<Rightarrow> effect \<Rightarrow> jstring list" where
  "receivers conns (Send c ev) = [c]"
| "receivers conns (Broadcast m exclude) = filter (\<lambda>c. c \<notin> set exclude) conns"

section \<open>Operations\<close>

record Validation =
  valid :: bool
  error :: "jstring option"

definition invalid :: "string \<Rightarrow> Validation" where
  "invalid e = \<lparr>valid = False, error = Some (js e)\<rparr>"

text \<open>\<open>.length\<close> and \<open>.trim()\<close> are read only after the check that the field is a
  string.\<close>

fun str :: "jsval \<Rightarrow> jstring" where
  "str (JStr s) = s"
| "str _ = []"

definition validateMessage :: "ChatMessage \<Rightarrow> Validation" where
  "validateMessage message =
     (if \<not> truthy (msg_id message) \<or> typeof (msg_id message) \<noteq> TString then
        invalid ''Invalid message ID''
      else if \<not> truthy (user message) \<or> typeof (user message) \<noteq> TString then
        invalid ''Invalid user name''
      else if length (str (user message)) > MAX_USERNAME_LENGTH then
        invalid ''Username too long (max 50 characters)''
      else if \<not> truthy (content message) \<or> typeof (content message) \<noteq> TString then
        invalid ''Invalid message content''
      else if length (trim (str (content message))) = 0 then
        invalid ''Message content cannot be empty''
      else if length (str (content message)) > MAX_MESSAGE_LENGTH then
        invalid ''Message too long (max 5000 characters)''
      else if \<not> strict_eq (role message) (JStr (js ''user''))
              \<and> \<not> strict_eq (role message) (JStr (js ''assistant'')) then
        invalid ''Invalid message role''
      else \<lparr>valid = True, error = None\<rparr>)"

text \<open>\<open>checkRateLimit\<close>; \<open>now\<close> is the value of \<open>Date.now()\<close>.\<close>

definition checkRateLimit :: "int \<Rightarrow> jstring \<Rightarrow> Chat \<Rightarrow> bool \<times> Chat" where
  "checkRateLimit now connectionId s =
     (case rateLimitMap s connectionId of
        None \<Rightarrow>
          (True, s\<lparr>rateLimitMap :=
                     (rateLimitMap s)(connectionId \<mapsto> \<lparr>count = 1, windowStart = now\<rparr>)\<rparr>)
      | Some tracker \<Rightarrow>
          if now - windowStart tracker > RATE_LIMIT_WINDOW_MS then
            (True, s\<lparr>rateLimitMap :=
                       (rateLimitMap s)(connectionId \<mapsto> \<lparr>count = 1, windowStart = now\<rparr>)\<rparr>)
          else if count tracker \<ge> RATE_LIMIT_MESSAGES then (False, s)
          else
            (True, s\<lparr>rateLimitMap :=
                       (rateLimitMap s)(connectionId \<mapsto> tracker\<lparr>count := count tracker + 1\<rparr>)\<rparr>))"

text \<open>\<open>this.ctx.storage.sql.exec\<close> on the actor's state.\<close>

definition exec :: "sql_stmt \<Rightarrow> Chat \<Rightarrow> exn option \<times> Chat" where
  "exec q s = (case sql_exec q (storage s) of (r, db) \<Rightarrow> (r, s\<lparr>storage := db\<rparr>))"

text \<open>\<open>deleteMessage\<close>: the filter on the array, then the durable delete. Its
  \<open>catch\<close> logs and rethrows, so the result carries what was thrown.\<close>

definition deleteMessage :: "jsval \<Rightarrow> Chat \<Rightarrow> exn option \<times> Chat" where
  "deleteMessage messageId s =
     exec (DeleteWhereId messageId)
       (s\<lparr>messages := filter (\<lambda>m. \<not> strict_eq (msg_id m) messageId) (messages s)\<rparr>)"

definition upsert_row :: "ChatMessage \<Rightarrow> sql_stmt" where
  "upsert_row message =
     InsertOnConflict (msg_id message) (user message) (role message) (content message)
       (timestamp message) (content message) (timestamp message)"

text \<open>\<open>saveMessage\<close>: validation, the update of the array (replace in place, or push
  and shift once the array is longer than \<open>MAX_MESSAGES\<close>), then the durable upsert.\<close>

definition saveMessage :: "ChatMessage \<Rightarrow> Chat \<Rightarrow> exn option \<times> Chat" where
  "saveMessage message s =
     (let validation = validateMessage message in
      if \<not> valid validation then
        (Some (JsError (case error validation of None \<Rightarrow> [] | Some e \<Rightarrow> e)), s)
      else
        (case findIndex (\<lambda>m. strict_eq (msg_id m) (msg_id message)) (messages s) of
           Some existingIndex \<Rightarrow>
             exec (upsert_row message)
               (s\<lparr>messages := (messages s)[existingIndex := message]\<rparr>)
         | None \<Rightarrow>
             (let pushed = messages s @ [message] in
              if length pushed > MAX_MESSAGES then
                (case pushed of
                   [] \<Rightarrow> exec (upsert_row message) (s\<lparr>messages := pushed\<rparr>)
                 | oldMessage # rest \<Rightarrow>
                     (case exec (DeleteWhereId (msg_id oldMessage)) (s\<lparr>messages := rest\<rparr>) of
                        (Some e, s') \<Rightarrow> (Some e, s')
                      | (None, s') \<Rightarrow> exec (upsert_row message) s'))
              else exec (upsert_row message) (s\<lparr>messages := pushed\<rparr>))))"

text \<open>
  \<open>onMessage\<close>. \<open>JSON_parse\<close> stands for the built-in parser (\<open>None\<close> when it throws
  a SyntaxError). \<open>onMessage_try\<close> is the body of the outer \<open>try\<close>: its first
  component is what reaches the outer \<open>catch\<close>, which logs it and returns.
\<close>

definition onMessage_try ::
  "(WSMessage \<Rightarrow> jsval option) \<Rightarrow> int \<Rightarrow> jstring \<Rightarrow> WSMessage \<Rightarrow> Chat
     \<Rightarrow> exn option \<times> effect list \<times> Chat" where
  "onMessage_try JSON_parse now connection message s =
     (case checkRateLimit now connection s of
        (False, s1) \<Rightarrow>
          (None, [Send connection (ErrorEvent (js ''Rate limit exceeded. Please slow down.''))], s1)
      | (True, s1) \<Rightarrow>
          (case JSON_parse message of
             None \<Rightarrow> (None, [Send connection (ErrorEvent (js ''Invalid message format''))], s1)
           | Some parsed \<Rightarrow>
               (case get_prop parsed (js ''type'') of
                  Inl e \<Rightarrow> (Some e, [], s1)
                | Inr ty \<Rightarrow>
                    if strict_eq ty (JStr (js ''add'')) \<or> strict_eq ty (JStr (js ''update'')) then
                      (case saveMessage (as_ChatMessage parsed) s1 of
                         (None, s2) \<Rightarrow> (None, [Broadcast message []], s2)
                       | (Some e, s2) \<Rightarrow>
                           (None,
                            [Send connection
                               (ErrorEvent (case e of JsError m \<Rightarrow> m
                                            | JsThrown v \<Rightarrow> js ''Failed to save message''))],
                            s2))
                    else if strict_eq ty (JStr (js ''delete'')) then
                      (case deleteMessage (field parsed (js ''id'')) s1 of
                         (None, s2) \<Rightarrow> (None, [Broadcast message []], s2)
                       | (Some e, s2) \<Rightarrow>
                           (None,
                            [Send connection (ErrorEvent (js ''Failed to delete message''))], s2))
                    else if strict_eq ty (JStr (js ''typing'')) then
                      (None, [Broadcast message [connection]], s1)
                    else if strict_eq ty (JStr (js ''user_joined'')) then
                      (None, [Broadcast message [connection]],
                       s1\<lparr>connectedUsers :=
                            (connectedUsers s1)(connection \<mapsto> field parsed (js ''user''))\<rparr>)
                    else (None, [], s1))))"

definition onMessage ::
  "(WSMessage \<Rightarrow> jsval option) \<Rightarrow> int \<Rightarrow> jstring \<Rightarrow> WSMessage \<Rightarrow> Chat \<Rightarrow> effect list \<times> Chat" where
  "onMessage JSON_parse now connection message s =
     (case onMessage_try JSON_parse now connection message s of (e, out, s') \<Rightarrow> (out, s'))"

section \<open>Definitions used by the statements\<close>

text \<open>The engine's text form of the values that the concrete inputs below bind for an
  id and that are not strings: the number 5, compared as the text \<open>5.0\<close>. They bind no
  other such value.\<close>

definition text_examples :: "jsval \<Rightarrow> jstring option" where
  "text_examples v = (if v = JNum (Finite 5) then Some (js ''5.0'') else None)"

text \<open>A fresh actor: the field initialisers of the class, over an empty table.\<close>

definition initial :: Chat where
  "initial =
     \<lparr>messages = [], rateLimitMap = Map.empty, connectedUsers = Map.empty,
      storage = \<lparr>table = Map.empty, faults = [], issued = [], id_text = text_examples\<rparr>\<rparr>"

text \<open>Consecutive calls of \<open>checkRateLimit\<close> for one connection, at the given times.\<close>

fun checkRateLimit_calls :: "jstring \<Rightarrow> int list \<Rightarrow> Chat \<Rightarrow> bool list \<times> Chat" where
  "checkRateLimit_calls c [] s = ([], s)"
| "checkRateLimit_calls c (now # ts) s =
     (case checkRateLimit now c s of
        (r, s') \<Rightarrow> (case checkRateLimit_calls c ts s' of (rs, s'') \<Rightarrow> (r # rs, s'')))"

text \<open>Consecutive frames, each with the time and the connection it arrives on.\<close>

fun onMessages ::
  "(WSMessage \<Rightarrow> jsval option) \<Rightarrow> (int \<times> jstring \<times> WSMessage) list \<Rightarrow> Chat \<Rightarrow> Chat" where
  "onMessages JSON_parse [] s = s"
| "onMessages JSON_parse ((now, c, message) # rest) s =
     onMessages JSON_parse rest (snd (onMessage JSON_parse now c message s))"

text \<open>\<open>precedes a b xs\<close>: \<open>b\<close> occurs in \<open>xs\<close> after the first \<open>a\<close>.\<close>

definition precedes :: "'a \<Rightarrow> 'a \<Rightarrow> 'a list \<Rightarrow> bool" where
  "precedes a b xs = (b \<in> set (drop 1 (dropWhile (\<lambda>x. x \<noteq> a) xs)))"

text \<open>What \<open>saveMessage\<close> does to the array, read off its code: replace in place, or
  push and then shift once the array is longer than \<open>MAX_MESSAGES\<close>.\<close>

definition upsert_log :: "ChatMessage \<Rightarrow> ChatMessage list \<Rightarrow> ChatMessage list" where
  "upsert_log m xs =
     (case findIndex (\<lambda>x. strict_eq (msg_id x) (msg_id m)) xs of
        Some i \<Rightarrow> xs[i := m]
      | None \<Rightarrow> if length (xs @ [m]) > MAX_MESSAGES then tl (xs @ [m]) else xs @ [m])"

subsection \<open>The validator as the specification words it\<close>

text \<open>
  The specification's \<open>validate(candidate) -> Result<(), ErrorKind>\<close>: seven checks in
  a fixed order, the result being the error of the first check that fails.
  \<open>error_text\<close> gives the message the server attaches to each kind.
\<close>

datatype ErrorKind =
  InvalidId | InvalidUser | UsernameTooLong | InvalidContent | EmptyContent | ContentTooLong
  | InvalidRole

fun error_text :: "ErrorKind \<Rightarrow> jstring" where
  "error_text InvalidId = js ''Invalid message ID''"
| "error_text InvalidUser = js ''Invalid user name''"
| "error_text UsernameTooLong = js ''Username too long (max 50 characters)''"
| "error_text InvalidContent = js ''Invalid message content''"
| "error_text EmptyContent = js ''Message content cannot be empty''"
| "error_text ContentTooLong = js ''Message too long (max 5000 characters)''"
| "error_text InvalidRole = js ''Invalid message role''"

fun nonempty_string :: "jsval \<Rightarrow> bool" where
  "nonempty_string (JStr s) = (s \<noteq> [])"
| "nonempty_string _ = False"

definition spec_checks :: "ChatMessage \<Rightarrow> (bool \<times> ErrorKind) list" where
  "spec_checks m =
     [(nonempty_string (msg_id m), InvalidId),
      (nonempty_string (user m), InvalidUser),
      (length (str (user m)) \<le> 50, UsernameTooLong),
      (nonempty_string (content m), InvalidContent),
      (trim (str (content m)) \<noteq> [], EmptyContent),
      (length (str (content m)) \<le> 5000, ContentTooLong),
      (role m = JStr (js ''user'') \<or> role m = JStr (js ''assistant''), InvalidRole)]"

definition spec_validate :: "ChatMessage \<Rightarrow> ErrorKind option" where
  "spec_validate m = map_option snd (find (\<lambda>(ok, k). \<not> ok) (spec_checks m))"

subsection \<open>Concrete inputs\<close>

definition hello :: ChatMessage where
  "hello =
     \<lparr>msg_id = JStr (js ''m1''), content = JStr (js ''hi''), user = JStr (js ''Alice''),
      role = JStr (js ''user''), timestamp = JNum (Finite 1700000000000)\<rparr>"

text \<open>
  Frames used as concrete inputs, with the value \<open>JSON.parse\<close> returns for each.
  \<open>garbage_frame\<close> is not JSON: \<open>JSON.parse\<close> throws on it.
\<close>

definition typing_frame :: WSMessage where
  "typing_frame = js ''{\"type\":\"typing\",\"user\":\"Alice\",\"isTyping\":true}''"

definition typing_value :: jsval where
  "typing_value =
     JObj [(js ''type'', JStr (js ''typing'')), (js ''user'', JStr (js ''Alice'')),
           (js ''isTyping'', JBool True)]"

definition garbage_frame :: WSMessage where
  "garbage_frame = js ''{not json''"

definition add_frame :: WSMessage where
  "add_frame =
     js ''{\"type\":\"add\",\"id\":\"m1\",\"content\":\"hi\",\"user\":\"Alice\",\"role\":\"user\",\"timestamp\":1700000000000}''"

definition add_value :: jsval where
  "add_value =
     JObj [(js ''type'', JStr (js ''add'')), (js ''id'', JStr (js ''m1'')),
           (js ''content'', JStr (js ''hi'')), (js ''user'', JStr (js ''Alice'')),
           (js ''role'', JStr (js ''user'')), (js ''timestamp'', JNum (Finite 1700000000000))]"

definition update_frame :: WSMessage where
  "update_frame =
     js ''{\"type\":\"update\",\"id\":\"m1\",\"content\":\"edited\",\"user\":\"Bob\",\"role\":\"assistant\",\"timestamp\":1700000000001}''"

definition update_value :: jsval where
  "update_value =
     JObj [(js ''type'', JStr (js ''update'')), (js ''id'', JStr (js ''m1'')),
           (js ''content'', JStr (js ''edited'')), (js ''user'', JStr (js ''Bob'')),
           (js ''role'', JStr (js ''assistant'')),
           (js ''timestamp'', JNum (Finite 1700000000001))]"

definition delete_frame :: WSMessage where
  "delete_frame = js ''{\"type\":\"delete\",\"id\":\"m1\"}''"

definition delete_value :: jsval where
  "delete_value = JObj [(js ''type'', JStr (js ''delete'')), (js ''id'', JStr (js ''m1''))]"

text \<open>A \<open>delete\<close> frame whose id is the number 5.\<close>

definition delete_five_frame :: WSMessage where
  "delete_five_frame = js ''{\"type\":\"delete\",\"id\":5}''"

definition delete_five_value :: jsval where
  "delete_five_value = JObj [(js ''type'', JStr (js ''delete'')), (js ''id'', JNum (Finite 5))]"

definition parse_examples :: "WSMessage \<Rightarrow> jsval option" where
  "parse_examples =
     map_of [(typing_frame, typing_value), (add_frame, add_value),
             (update_frame, update_value), (delete_frame, delete_value),
             (delete_five_frame, delete_five_value)]"

text \<open>The message of \<open>update_frame\<close>: \<open>hello\<close> edited, with another user, role and
  timestamp.\<close>

definition edited :: ChatMessage where
  "edited =
     \<lparr>msg_id = JStr (js ''m1''), content = JStr (js ''edited''), user = JStr (js ''Bob''),
      role = JStr (js ''assistant''), timestamp = JNum (Finite 1700000000001)\<rparr>"

text \<open>A log at capacity: a thousand messages with the ids \<open>k0\<close>, \<open>k1\<close>, ... (the letter
  \<open>k\<close> and the code unit \<open>n\<close>), each with its durable row.\<close>

definition numbered :: "nat \<Rightarrow> ChatMessage" where
  "numbered n = hello\<lparr>msg_id := JStr [0x6B, of_nat n]\<rparr>"

definition row_of :: "ChatMessage \<Rightarrow> Row" where
  "row_of m =
     \<lparr>col_user = user m, col_role = role m, col_content = content m,
      col_timestamp = timestamp m\<rparr>"

definition full_log :: Chat where
  "full_log =
     initial\<lparr>messages := map numbered [0..<1000],
             storage := \<lparr>table = map_of (map (\<lambda>n. (msg_id (numbered n), row_of (numbered n)))
                                               [0..<1000]),
                         faults = [], issued = [], id_text = text_examples\<rparr>\<rparr>"

text \<open>The log at capacity over a storage with the fault schedule \<open>fs\<close>.\<close>

definition full_log_faults :: "exn option list \<Rightarrow> Chat" where
  "full_log_faults fs = full_log\<lparr>storage := (storage full_log)\<lparr>faults := fs\<rparr>\<rparr>"

text \<open>An actor whose log holds the given messages, each with its durable row.\<close>

definition stored :: "ChatMessage list \<Rightarrow> Chat" where
  "stored xs =
     initial\<lparr>messages := xs,
             storage := (storage initial)\<lparr>table := map_of (map (\<lambda>m. (msg_id m, row_of m)) xs)\<rparr>\<rparr>"

text \<open>Logs of three and of two messages with different ids, and a log whose one message
  has the id \<open>5.0\<close>.\<close>

definition three_messages :: Chat where
  "three_messages = stored [numbered 0, hello, numbered 2]"

definition two_messages :: Chat where
  "two_messages = stored [numbered 0, numbered 2]"


text \<open>The log after \<open>hello\<close> was saved.\<close>

definition one_message :: Chat where
  "one_message =
     initial\<lparr>messages := [hello],
             storage := \<lparr>table = [msg_id hello \<mapsto> row_of hello], faults = [],
                         issued = [upsert_row hello], id_text = text_examples\<rparr>\<rparr>"

text \<open>A connection, and an actor on which it has used the ten frames of its window.\<close>

definition c1 :: jstring where
  "c1 = js ''c1''"

definition limit_reached :: Chat where
  "limit_reached = initial\<lparr>rateLimitMap := [c1 \<mapsto> \<lparr>count = 10, windowStart = 0\<rparr>]\<rparr>"

text \<open>A fresh actor whose storage raises \<open>e\<close> on the next call of \<open>sql.exec\<close>.\<close>

definition failing_store :: "exn \<Rightarrow> Chat" where
  "failing_store e =
     initial\<lparr>storage := \<lparr>table = Map.empty, faults = [Some e], issued = [],
                         id_text = text_examples\<rparr>\<rparr>"

section \<open>The rate limiter\<close>

lemma fst_calls_Cons:
  "fst (checkRateLimit_calls c (t # ts) s) =
     fst (checkRateLimit t c s) # fst (checkRateLimit_calls c ts (snd (checkRateLimit t c s)))"
  by (simp split: prod.splits)

lemma calls_in_window:
  "rateLimitMap s c = Some \<lparr>count = int k, windowStart = t0\<rparr> \<Longrightarrow> k \<le> 10 \<Longrightarrow>
   \<forall>t \<in> set ts. t - t0 \<le> RATE_LIMIT_WINDOW_MS \<Longrightarrow>
   fst (checkRateLimit_calls c ts s) =
     replicate (min (length ts) (10 - k)) True @ replicate (length ts - (10 - k)) False"
proof (induction ts arbitrary: s k)
  case Nil
  then show ?case by simp
next
  case (Cons t ts)
  show ?case
  proof (cases "k = 10")
    case True
    with Cons.prems have step: "checkRateLimit t c s = (False, s)"
      by (simp add: checkRateLimit_def RATE_LIMIT_MESSAGES_def)
    from Cons.IH[of s k] Cons.prems True show ?thesis
      by (simp add: step fst_calls_Cons del: checkRateLimit_calls.simps)
  next
    case False
    with Cons.prems have k: "k < 10" by simp
    let ?s' = "s\<lparr>rateLimitMap := (rateLimitMap s)(c \<mapsto> \<lparr>count = int (Suc k), windowStart = t0\<rparr>)\<rparr>"
    from Cons.prems k have step: "checkRateLimit t c s = (True, ?s')"
      by (simp add: checkRateLimit_def RATE_LIMIT_MESSAGES_def add.commute)
    have "fst (checkRateLimit_calls c ts ?s') =
      replicate (min (length ts) (10 - Suc k)) True @ replicate (length ts - (10 - Suc k)) False"
      using Cons.prems k by (intro Cons.IH) auto
    moreover have "10 - k = Suc (10 - Suc k)" using k by simp
    ultimately show ?thesis
      by (simp add: step fst_calls_Cons del: checkRateLimit_calls.simps)
  qed
qed


text \<open>
  Claim C6. For every connection id and time \<open>now\<close>, \<open>checkRateLimit\<close> returns true and
  resets the tracker to \<open>count = 1\<close>, \<open>windowStart = now\<close> when no tracker exists or
  \<open>now - windowStart > 10000\<close>; otherwise it returns false and leaves the state as it is
  when \<open>count \<ge> 10\<close>; otherwise it increments \<open>count\<close> and returns true. Consequently,
  of the calls made for one connection within one window (a first call that opens the
  window at \<open>now\<close>, the others no later than \<open>now + 10000\<close>), exactly the first ten
  return true and every later one returns false.
\<close>

theorem checkRateLimit_fixed_window:
  "(rateLimitMap s c = None \<or> (\<exists>t. rateLimitMap s c = Some t \<and> now - windowStart t > 10000) \<longrightarrow>
      checkRateLimit now c s =
        (True, s\<lparr>rateLimitMap := (rateLimitMap s)(c \<mapsto> \<lparr>count = 1, windowStart = now\<rparr>)\<rparr>))
   \<and> (\<forall>t. rateLimitMap s c = Some t \<and> now - windowStart t \<le> 10000 \<and> count t \<ge> 10 \<longrightarrow>
          checkRateLimit now c s = (False, s))
   \<and> (\<forall>t. rateLimitMap s c = Some t \<and> now - windowStart t \<le> 10000 \<and> count t < 10 \<longrightarrow>
          checkRateLimit now c s =
            (True, s\<lparr>rateLimitMap := (rateLimitMap s)(c \<mapsto> t\<lparr>count := count t + 1\<rparr>)\<rparr>))
   \<and> ((rateLimitMap s c = None \<or> (\<exists>t. rateLimitMap s c = Some t \<and> now - windowStart t > 10000))
        \<and> (\<forall>t \<in> set ts. t - now \<le> 10000) \<longrightarrow>
          fst (checkRateLimit_calls c (now # ts) s) =
            replicate (min (Suc (length ts)) 10) True @ replicate (Suc (length ts) - 10) False)"
proof (intro conjI impI allI)
  assume "rateLimitMap s c = None \<or> (\<exists>t. rateLimitMap s c = Some t \<and> now - windowStart t > 10000)"
  then show "checkRateLimit now c s =
        (True, s\<lparr>rateLimitMap := (rateLimitMap s)(c \<mapsto> \<lparr>count = 1, windowStart = now\<rparr>)\<rparr>)"
    by (auto simp: checkRateLimit_def RATE_LIMIT_WINDOW_MS_def)
next
  fix t assume "rateLimitMap s c = Some t \<and> now - windowStart t \<le> 10000 \<and> count t \<ge> 10"
  then show "checkRateLimit now c s = (False, s)"
    by (simp add: checkRateLimit_def RATE_LIMIT_WINDOW_MS_def RATE_LIMIT_MESSAGES_def)
next
  fix t assume "rateLimitMap s c = Some t \<and> now - windowStart t \<le> 10000 \<and> count t < 10"
  then show "checkRateLimit now c s =
            (True, s\<lparr>rateLimitMap := (rateLimitMap s)(c \<mapsto> t\<lparr>count := count t + 1\<rparr>)\<rparr>)"
    by (simp add: checkRateLimit_def RATE_LIMIT_WINDOW_MS_def RATE_LIMIT_MESSAGES_def)
next
  assume a: "(rateLimitMap s c = None \<or> (\<exists>t. rateLimitMap s c = Some t \<and> now - windowStart t > 10000))
        \<and> (\<forall>t \<in> set ts. t - now \<le> 10000)"
  let ?s' = "s\<lparr>rateLimitMap := (rateLimitMap s)(c \<mapsto> \<lparr>count = 1, windowStart = now\<rparr>)\<rparr>"
  from a have first: "checkRateLimit now c s = (True, ?s')"
    by (auto simp: checkRateLimit_def RATE_LIMIT_WINDOW_MS_def)
  have "fst (checkRateLimit_calls c ts ?s') =
     replicate (min (length ts) (10 - 1)) True @ replicate (length ts - (10 - 1)) False"
    using a by (intro calls_in_window) (auto simp: RATE_LIMIT_WINDOW_MS_def)
  moreover have "min (Suc (length ts)) 10 = Suc (min (length ts) (10 - 1))"
    and "Suc (length ts) - 10 = length ts - (10 - 1)"
    by simp_all
  ultimately show "fst (checkRateLimit_calls c (now # ts) s) =
            replicate (min (Suc (length ts)) 10) True @ replicate (Suc (length ts) - 10) False"
    by (simp only: first fst_calls_Cons fst_conv snd_conv replicate_Suc append_Cons)
qed

theorem checkRateLimit_fixed_window_witness:
  "checkRateLimit 5 (js ''c1'') initial =
     (True, initial\<lparr>rateLimitMap := [js ''c1'' \<mapsto> \<lparr>count = 1, windowStart = 5\<rparr>]\<rparr>)
   \<and> checkRateLimit 10005 (js ''c1'')
        (initial\<lparr>rateLimitMap := [js ''c1'' \<mapsto> \<lparr>count = 10, windowStart = 5\<rparr>]\<rparr>) =
       (False, initial\<lparr>rateLimitMap := [js ''c1'' \<mapsto> \<lparr>count = 10, windowStart = 5\<rparr>]\<rparr>)
   \<and> checkRateLimit 10006 (js ''c1'')
        (initial\<lparr>rateLimitMap := [js ''c1'' \<mapsto> \<lparr>count = 10, windowStart = 5\<rparr>]\<rparr>) =
       (True, initial\<lparr>rateLimitMap := [js ''c1'' \<mapsto> \<lparr>count = 1, windowStart = 10006\<rparr>]\<rparr>)
   \<and> checkRateLimit 7 (js ''c1'')
        (initial\<lparr>rateLimitMap := [js ''c1'' \<mapsto> \<lparr>count = 9, windowStart = 5\<rparr>]\<rparr>) =
       (True, initial\<lparr>rateLimitMap := [js ''c1'' \<mapsto> \<lparr>count = 10, windowStart = 5\<rparr>]\<rparr>)
   \<and> fst (checkRateLimit_calls (js ''c1'') [5, 6, 7, 8, 9, 10, 11, 12, 13, 10004, 10005] initial) =
       [True, True, True, True, True, True, True, True, True, True, False]"
proof -
  let ?c = "js ''c1''"
  let ?full = "initial\<lparr>rateLimitMap := [?c \<mapsto> \<lparr>count = 10, windowStart = 5\<rparr>]\<rparr>"
  let ?nine = "initial\<lparr>rateLimitMap := [?c \<mapsto> \<lparr>count = 9, windowStart = 5\<rparr>]\<rparr>"
  have 1: "checkRateLimit 5 ?c initial =
     (True, initial\<lparr>rateLimitMap := [?c \<mapsto> \<lparr>count = 1, windowStart = 5\<rparr>]\<rparr>)"
    using checkRateLimit_fixed_window [of initial ?c 5 "[]"] by (simp add: initial_def)
  have 2: "checkRateLimit 10005 ?c ?full = (False, ?full)"
    using checkRateLimit_fixed_window [of ?full ?c 10005 "[]"] by simp
  have 3: "checkRateLimit 10006 ?c ?full =
      (True, initial\<lparr>rateLimitMap := [?c \<mapsto> \<lparr>count = 1, windowStart = 10006\<rparr>]\<rparr>)"
    using checkRateLimit_fixed_window [of ?full ?c 10006 "[]"] by simp
  have 4: "checkRateLimit 7 ?c ?nine = (True, ?full)"
    using checkRateLimit_fixed_window [of ?nine ?c 7 "[]"] by simp
  have 5: "fst (checkRateLimit_calls ?c [5, 6, 7, 8, 9, 10, 11, 12, 13, 10004, 10005] initial) =
       [True, True, True, True, True, True, True, True, True, True, False]"
  proof -
    have "fst (checkRateLimit_calls ?c [5, 6, 7, 8, 9, 10, 11, 12, 13, 10004, 10005] initial) =
       replicate (min (Suc (length [6, 7, 8, 9, 10, 11, 12, 13, 10004, 10005 :: int])) 10) True
       @ replicate (Suc (length [6, 7, 8, 9, 10, 11, 12, 13, 10004, 10005 :: int]) - 10) False"
      using checkRateLimit_fixed_window [of initial ?c 5 "[6, 7, 8, 9, 10, 11, 12, 13, 10004, 10005]"]
      by (simp add: initial_def del: checkRateLimit_calls.simps)
    then show ?thesis
      by (simp add: numeral_eq_Suc del: checkRateLimit_calls.simps)
  qed
  from 1 2 3 4 5 show ?thesis by blast
qed


section \<open>The validator\<close>

lemma not_string_iff: "(\<not> truthy v \<or> typeof v \<noteq> TString) = (\<not> nonempty_string v)"
  by (cases v) auto

lemma strict_eq_JStr [simp]: "strict_eq v (JStr s) = (v = JStr s)"
  by (cases v) auto

lemma nonempty_string_iff: "nonempty_string v = (\<exists>s. v = JStr s \<and> s \<noteq> [])"
  by (cases v) auto

lemma validateMessage_refines:
  "validateMessage m =
     (case spec_validate m of
        None \<Rightarrow> \<lparr>valid = True, error = None\<rparr>
      | Some k \<Rightarrow> \<lparr>valid = False, error = Some (error_text k)\<rparr>)"
  unfolding validateMessage_def not_string_iff spec_validate_def spec_checks_def invalid_def
    MAX_USERNAME_LENGTH_def MAX_MESSAGE_LENGTH_def
  by (simp add: not_less)

lemma trim_Nil [simp]: "trim [] = []"
  by (simp add: trim_def)

lemma spec_validate_None:
  "spec_validate m = None \<longleftrightarrow>
     nonempty_string (msg_id m) \<and> nonempty_string (user m) \<and> length (str (user m)) \<le> 50
     \<and> nonempty_string (content m) \<and> trim (str (content m)) \<noteq> []
     \<and> length (str (content m)) \<le> 5000
     \<and> (role m = JStr (js ''user'') \<or> role m = JStr (js ''assistant''))"
  by (simp add: spec_validate_def spec_checks_def)

lemma valid_iff:
  "valid (validateMessage m) \<longleftrightarrow>
     (\<exists>i. msg_id m = JStr i \<and> i \<noteq> [])
     \<and> (\<exists>u. user m = JStr u \<and> u \<noteq> [] \<and> length u \<le> 50)
     \<and> (\<exists>c. content m = JStr c \<and> trim c \<noteq> [] \<and> length c \<le> 5000)
     \<and> (role m = JStr (js ''user'') \<or> role m = JStr (js ''assistant''))"
proof -
  have "valid (validateMessage m) \<longleftrightarrow> spec_validate m = None"
    by (simp add: validateMessage_refines split: option.splits)
  also have "\<dots> \<longleftrightarrow>
     (\<exists>i. msg_id m = JStr i \<and> i \<noteq> [])
     \<and> (\<exists>u. user m = JStr u \<and> u \<noteq> [] \<and> length u \<le> 50)
     \<and> (\<exists>c. content m = JStr c \<and> trim c \<noteq> [] \<and> length c \<le> 5000)
     \<and> (role m = JStr (js ''user'') \<or> role m = JStr (js ''assistant''))"
    unfolding spec_validate_None nonempty_string_iff by auto
  finally show ?thesis .
qed

lemma trim_empty_iff: "trim s = [] \<longleftrightarrow> (\<forall>c \<in> set s. is_whitespace c)"
proof -
  have "set s = set (takeWhile is_whitespace s) \<union> set (dropWhile is_whitespace s)"
    by (metis set_append takeWhile_dropWhile_id)
  then show ?thesis
    by (auto simp: trim_def dropWhile_eq_Nil_conv dest: set_takeWhileD)
qed

text \<open>
  Claim C7. For a candidate object whose fields have any shape (present or missing, of
  any type), \<open>validateMessage\<close> succeeds
  if and only if the id is a non-empty string, the user a non-empty string of at most 50
  code units, the content a string that is non-empty after trimming and of at most 5000
  code units (untrimmed), and the role \<open>"user"\<close> or \<open>"assistant"\<close>. On failure it
  returns the error of the first failing check in the order id, user, user length,
  content, empty content, content length, role. It is a function of the candidate
  alone, and \<open>saveMessage\<close> leaves the actor's state untouched when it fails.
\<close>

theorem validateMessage_first_failing_check:
  "(valid (validateMessage m) \<longleftrightarrow>
      (\<exists>i. msg_id m = JStr i \<and> i \<noteq> [])
      \<and> (\<exists>u. user m = JStr u \<and> u \<noteq> [] \<and> length u \<le> 50)
      \<and> (\<exists>c. content m = JStr c \<and> trim c \<noteq> [] \<and> length c \<le> 5000)
      \<and> (role m = JStr (js ''user'') \<or> role m = JStr (js ''assistant'')))
   \<and> validateMessage m =
       (case spec_validate m of
          None \<Rightarrow> \<lparr>valid = True, error = None\<rparr>
        | Some k \<Rightarrow> \<lparr>valid = False, error = Some (error_text k)\<rparr>)
   \<and> (\<forall>k. spec_validate m = Some k \<longrightarrow>
          saveMessage m s = (Some (JsError (error_text k)), s))"
proof (intro conjI allI impI)
  fix k assume "spec_validate m = Some k"
  then show "saveMessage m s = (Some (JsError (error_text k)), s)"
    by (simp add: saveMessage_def validateMessage_refines)
qed (rule valid_iff, rule validateMessage_refines)

theorem validateMessage_first_failing_check_witness:
  "valid (validateMessage hello)
   \<and> valid (validateMessage (hello\<lparr>user := JStr (replicate 50 0x61), content := JStr (replicate 5000 0x62)\<rparr>))
   \<and> validateMessage (hello\<lparr>user := JStr (replicate 51 0x61)\<rparr>) =
       \<lparr>valid = False, error = Some (js ''Username too long (max 50 characters)'')\<rparr>
   \<and> validateMessage (hello\<lparr>content := JStr (js ''   '')\<rparr>) =
       \<lparr>valid = False, error = Some (js ''Message content cannot be empty'')\<rparr>
   \<and> validateMessage (hello\<lparr>content := JStr (replicate 5001 0x62), role := JStr (js ''admin'')\<rparr>) =
       \<lparr>valid = False, error = Some (js ''Message too long (max 5000 characters)'')\<rparr>
   \<and> saveMessage (hello\<lparr>user := JUndefined, role := JNull\<rparr>) initial =
       (Some (JsError (js ''Invalid user name'')), initial)"
proof -
  have ws: "\<not> is_whitespace 0x68" "\<not> is_whitespace 0x62"
    by (simp_all add: is_whitespace_def)
  have tr: "trim (js ''hi'') \<noteq> []" "trim (replicate 5000 0x62) \<noteq> []" "trim (replicate 5001 0x62) \<noteq> []"
    by (simp_all add: trim_empty_iff js_def ws)
  have 1: "valid (validateMessage hello)"
    using validateMessage_first_failing_check [of hello initial, THEN conjunct1] tr
    by (simp add: hello_def js_def)
  have 2: "valid (validateMessage (hello\<lparr>user := JStr (replicate 50 0x61), content := JStr (replicate 5000 0x62)\<rparr>))"
    using validateMessage_first_failing_check
      [of "hello\<lparr>user := JStr (replicate 50 0x61), content := JStr (replicate 5000 0x62)\<rparr>" initial, THEN conjunct1] tr
    by (simp add: hello_def js_def)
  have 3: "validateMessage (hello\<lparr>user := JStr (replicate 51 0x61)\<rparr>) =
       \<lparr>valid = False, error = Some (js ''Username too long (max 50 characters)'')\<rparr>"
    using validateMessage_first_failing_check [of "hello\<lparr>user := JStr (replicate 51 0x61)\<rparr>" initial, THEN conjunct2, THEN conjunct1]
    by (simp add: hello_def spec_validate_def spec_checks_def js_def)
  have 4: "validateMessage (hello\<lparr>content := JStr (js ''   '')\<rparr>) =
       \<lparr>valid = False, error = Some (js ''Message content cannot be empty'')\<rparr>"
    using validateMessage_first_failing_check [of "hello\<lparr>content := JStr (js ''   '')\<rparr>" initial, THEN conjunct2, THEN conjunct1]
    by (simp add: hello_def spec_validate_def spec_checks_def trim_empty_iff js_def is_whitespace_def)
  have 5: "validateMessage (hello\<lparr>content := JStr (replicate 5001 0x62), role := JStr (js ''admin'')\<rparr>) =
       \<lparr>valid = False, error = Some (js ''Message too long (max 5000 characters)'')\<rparr>"
    using validateMessage_first_failing_check
      [of "hello\<lparr>content := JStr (replicate 5001 0x62), role := JStr (js ''admin'')\<rparr>" initial, THEN conjunct2, THEN conjunct1] tr
    by (simp add: hello_def spec_validate_def spec_checks_def js_def)
  have 6: "saveMessage (hello\<lparr>user := JUndefined, role := JNull\<rparr>) initial =
       (Some (JsError (js ''Invalid user name'')), initial)"
    using validateMessage_first_failing_check [of "hello\<lparr>user := JUndefined, role := JNull\<rparr>" initial, THEN conjunct2, THEN conjunct2]
    by (simp add: hello_def spec_validate_def spec_checks_def js_def)
  from 1 2 3 4 5 6 show ?thesis by blast
qed

section \<open>The message handler\<close>

lemma checkRateLimit_frame:
  "messages (snd (checkRateLimit now c s)) = messages s"
  "storage (snd (checkRateLimit now c s)) = storage s"
  "connectedUsers (snd (checkRateLimit now c s)) = connectedUsers s"
  by (simp_all add: checkRateLimit_def split: option.splits)

lemma checkRateLimit_denied:
  "\<not> fst (checkRateLimit now c s) \<Longrightarrow> snd (checkRateLimit now c s) = s"
  by (auto simp: checkRateLimit_def split: option.splits if_splits)

lemma checkRateLimit_admitted:
  "fst (checkRateLimit now c s) \<Longrightarrow>
   rateLimitMap (snd (checkRateLimit now c s)) c =
     Some (case rateLimitMap s c of
             None \<Rightarrow> \<lparr>count = 1, windowStart = now\<rparr>
           | Some t \<Rightarrow> if now - windowStart t > 10000 then \<lparr>count = 1, windowStart = now\<rparr>
                       else t\<lparr>count := count t + 1\<rparr>)"
  by (auto simp: checkRateLimit_def RATE_LIMIT_WINDOW_MS_def split: option.splits if_splits)

lemma checkRateLimit_new:
  "rateLimitMap s c = None \<Longrightarrow>
   checkRateLimit now c s =
     (True, s\<lparr>rateLimitMap := (rateLimitMap s)(c \<mapsto> \<lparr>count = 1, windowStart = now\<rparr>)\<rparr>)"
  by (simp add: checkRateLimit_def)

lemma onMessage_denied:
  "\<not> fst (checkRateLimit now c s) \<Longrightarrow>
   onMessage JSON_parse now c message s =
     ([Send c (ErrorEvent (js ''Rate limit exceeded. Please slow down.''))], s)"
  using checkRateLimit_denied [of now c s]
  by (cases "checkRateLimit now c s") (simp add: onMessage_def onMessage_try_def)

lemma parse_typing_frame: "parse_examples typing_frame = Some typing_value"
  by (simp add: parse_examples_def)

lemma parse_garbage_frame: "parse_examples garbage_frame = None"
  by (simp add: parse_examples_def garbage_frame_def typing_frame_def add_frame_def
      update_frame_def delete_frame_def delete_five_frame_def js_def)

lemma parse_add_frame: "parse_examples add_frame = Some add_value"
  by (simp add: parse_examples_def typing_frame_def add_frame_def js_def)

lemma parse_update_frame: "parse_examples update_frame = Some update_value"
  by (simp add: parse_examples_def typing_frame_def add_frame_def update_frame_def js_def)



lemma as_ChatMessage_add_value: "as_ChatMessage add_value = hello"
  by (simp add: as_ChatMessage_def add_value_def hello_def field_def js_def)

lemma as_ChatMessage_update_value: "as_ChatMessage update_value = edited"
  by (simp add: as_ChatMessage_def update_value_def edited_def field_def js_def)

lemma limit_reached_denied: "checkRateLimit 5000 c1 limit_reached = (False, limit_reached)"
  by (simp add: checkRateLimit_def limit_reached_def RATE_LIMIT_WINDOW_MS_def
      RATE_LIMIT_MESSAGES_def)

lemma initial_admitted:
  "checkRateLimit 0 c1 initial =
     (True, initial\<lparr>rateLimitMap := [c1 \<mapsto> \<lparr>count = 1, windowStart = 0\<rparr>]\<rparr>)"
  by (simp add: checkRateLimit_def initial_def)

text \<open>
  Claim C1 says that a \<open>typing\<close> frame is exempt from rate limiting: broadcast to all
  but the sender however many frames the sender has sent in the window, and the
  sender's tracker untouched. The handler calls \<open>checkRateLimit\<close> before it parses the
  frame, whatever its tag. A \<open>typing\<close> frame from a connection that has used its ten
  frames is answered with the rate-limit error and is not broadcast; a \<open>typing\<close> frame
  from a new connection is broadcast and creates the connection's tracker with
  \<open>count = 1\<close>.
\<close>

theorem typing_frame_rate_limited:
  "onMessage parse_examples 5000 c1 typing_frame limit_reached =
     ([Send c1 (ErrorEvent (js ''Rate limit exceeded. Please slow down.''))], limit_reached)
   \<and> fst (onMessage parse_examples 0 c1 typing_frame initial) = [Broadcast typing_frame [c1]]
   \<and> rateLimitMap initial c1 = None
   \<and> rateLimitMap (snd (onMessage parse_examples 0 c1 typing_frame initial)) c1 =
       Some \<lparr>count = 1, windowStart = 0\<rparr>"
proof -
  have "onMessage parse_examples 5000 c1 typing_frame limit_reached =
     ([Send c1 (ErrorEvent (js ''Rate limit exceeded. Please slow down.''))], limit_reached)"
    by (rule onMessage_denied) (simp add: limit_reached_denied)
  moreover have "get_prop typing_value (js ''type'') = Inr (JStr (js ''typing''))"
    by (simp add: typing_value_def js_def)
  then have "onMessage parse_examples 0 c1 typing_frame initial =
      ([Broadcast typing_frame [c1]],
       initial\<lparr>rateLimitMap := [c1 \<mapsto> \<lparr>count = 1, windowStart = 0\<rparr>]\<rparr>)"
    by (simp add: onMessage_def onMessage_try_def initial_admitted parse_typing_frame)
      (simp add: js_def)
  moreover have "rateLimitMap initial c1 = None"
    by (simp add: initial_def)
  ultimately show ?thesis by simp
qed

text \<open>
  Claim C2 says that an unparsable frame is answered with \<open>"Invalid message format"\<close>
  and costs no rate-limit charge. The handler charges every frame before it parses it:
  the unparsable frame of a new connection creates its tracker, and the unparsable
  frame of a connection that has used its ten frames gets the rate-limit error.
\<close>

theorem unparsable_frame_charged_counterexample:
  "parse_examples garbage_frame = None
   \<and> rateLimitMap (snd (onMessage parse_examples 0 c1 garbage_frame initial)) c1
       \<noteq> rateLimitMap initial c1
   \<and> fst (onMessage parse_examples 5000 c1 garbage_frame limit_reached)
       \<noteq> [Send c1 (ErrorEvent (js ''Invalid message format''))]"
proof -
  have "rateLimitMap (snd (onMessage parse_examples 0 c1 garbage_frame initial)) c1 =
      Some \<lparr>count = 1, windowStart = 0\<rparr>"
    by (simp add: onMessage_def onMessage_try_def initial_admitted parse_garbage_frame)
  moreover have "rateLimitMap initial c1 = None"
    by (simp add: initial_def)
  moreover have "fst (onMessage parse_examples 5000 c1 garbage_frame limit_reached) =
      [Send c1 (ErrorEvent (js ''Rate limit exceeded. Please slow down.''))]"
    by (simp add: onMessage_denied limit_reached_denied)
  moreover have "js ''Rate limit exceeded. Please slow down.'' \<noteq> js ''Invalid message format''"
    by (simp add: js_def)
  ultimately show ?thesis
    by (simp add: parse_garbage_frame)
qed

text \<open>
  Claim C2, amended. For every inbound frame on which \<open>JSON.parse\<close> fails and which the
  rate limiter admits, the actor replies to the sender only, with an \<open>error\<close> event
  carrying \<open>"Invalid message format"\<close>, and broadcasts nothing; the log, the session
  registry and the durable store are unchanged. The frame is charged like any other:
  the sender's tracker is reset to \<open>count = 1\<close> when it was absent or expired and has
  its \<open>count\<close> incremented otherwise.
\<close>

theorem unparsable_frame_reply:
  assumes "JSON_parse message = None" and "fst (checkRateLimit now c s)"
  shows "onMessage JSON_parse now c message s =
           ([Send c (ErrorEvent (js ''Invalid message format''))], snd (checkRateLimit now c s))
         \<and> receivers conns (Send c (ErrorEvent (js ''Invalid message format''))) = [c]
         \<and> messages (snd (onMessage JSON_parse now c message s)) = messages s
         \<and> connectedUsers (snd (onMessage JSON_parse now c message s)) = connectedUsers s
         \<and> storage (snd (onMessage JSON_parse now c message s)) = storage s
         \<and> rateLimitMap (snd (onMessage JSON_parse now c message s)) c =
             Some (case rateLimitMap s c of
                     None \<Rightarrow> \<lparr>count = 1, windowStart = now\<rparr>
                   | Some t \<Rightarrow>
                       if now - windowStart t > 10000 then \<lparr>count = 1, windowStart = now\<rparr>
                       else t\<lparr>count := count t + 1\<rparr>)"
proof -
  have "onMessage JSON_parse now c message s =
           ([Send c (ErrorEvent (js ''Invalid message format''))], snd (checkRateLimit now c s))"
    using assms by (cases "checkRateLimit now c s") (simp add: onMessage_def onMessage_try_def)
  then show ?thesis
    using assms(2) by (simp add: checkRateLimit_frame checkRateLimit_admitted)
qed

theorem unparsable_frame_reply_witness:
  "parse_examples garbage_frame = None
   \<and> fst (checkRateLimit 0 c1 initial)
   \<and> onMessage parse_examples 0 c1 garbage_frame initial =
       ([Send c1 (ErrorEvent (js ''Invalid message format''))],
        initial\<lparr>rateLimitMap := [c1 \<mapsto> \<lparr>count = 1, windowStart = 0\<rparr>]\<rparr>)
   \<and> rateLimitMap (snd (onMessage parse_examples 0 c1 garbage_frame initial)) c1 =
       Some \<lparr>count = 1, windowStart = 0\<rparr>"
proof -
  have p: "parse_examples garbage_frame = None"
    by (rule parse_garbage_frame)
  have a: "fst (checkRateLimit 0 c1 initial)"
    by (simp add: initial_admitted)
  have "rateLimitMap initial c1 = None"
    by (simp add: initial_def)
  with unparsable_frame_reply [of parse_examples garbage_frame 0 c1 initial "[c1]", OF p a] p a show ?thesis
    by (simp add: initial_admitted)
qed

section \<open>The message log\<close>

lemma findIndex_None_iff: "findIndex p xs = None \<longleftrightarrow> (\<forall>x \<in> set xs. \<not> p x)"
  by (induction xs) (auto split: option.splits)

lemma findIndex_Some_D:
  "findIndex p xs = Some i \<Longrightarrow> i < length xs \<and> p (xs ! i) \<and> (\<forall>j<i. \<not> p (xs ! j))"
proof (induction xs arbitrary: i)
  case Nil
  then show ?case by simp
next
  case (Cons x xs)
  show ?case
  proof (cases "p x")
    case True
    with Cons.prems show ?thesis by simp
  next
    case False
    with Cons.prems obtain k where k: "findIndex p xs = Some k" "i = Suc k"
      by (auto split: option.splits)
    from Cons.IH [OF k(1)] False k(2) show ?thesis
      by (auto simp: nth_Cons split: nat.splits)
  qed
qed

lemma findIndex_first:
  "i < length xs \<Longrightarrow> p (xs ! i) \<Longrightarrow> \<forall>j<i. \<not> p (xs ! j) \<Longrightarrow> findIndex p xs = Some i"
proof (induction xs arbitrary: i)
  case Nil
  then show ?case by simp
next
  case (Cons x xs)
  show ?case
  proof (cases i)
    case 0
    with Cons.prems show ?thesis by simp
  next
    case (Suc k)
    with Cons.prems have "\<not> p x" by auto
    moreover have "findIndex p xs = Some k"
      using Cons.prems Suc by (intro Cons.IH) auto
    ultimately show ?thesis using Suc by simp
  qed
qed

lemma exec_frame:
  "messages (snd (exec q s)) = messages s"
  "rateLimitMap (snd (exec q s)) = rateLimitMap s"
  "connectedUsers (snd (exec q s)) = connectedUsers s"
  by (simp_all add: exec_def split: prod.splits)

lemma exec_issued: "issued (storage (snd (exec q s))) = issued (storage s) @ [q]"
  by (simp add: exec_def sql_exec_def split: prod.splits list.splits option.splits)

lemma exec_ok_table:
  "fst (exec q s) = None \<Longrightarrow>
   table (storage (snd (exec q s))) = sql_run (id_text (storage s)) q (table (storage s))"
  by (auto simp: exec_def sql_exec_def split: prod.splits list.splits option.splits)

lemma exec_failed_table:
  "fst (exec q s) = Some e \<Longrightarrow> table (storage (snd (exec q s))) = table (storage s)"
  by (auto simp: exec_def sql_exec_def split: prod.splits list.splits option.splits)

lemma exec_failed_scheduled:
  "fst (exec q s) = Some e \<Longrightarrow> Some e \<in> set (faults (storage s))"
  by (auto simp: exec_def sql_exec_def split: prod.splits list.splits option.splits)

lemma exec_messages_update:
  "exec q (s\<lparr>messages := xs\<rparr>) = (fst (exec q s), (snd (exec q s))\<lparr>messages := xs\<rparr>)"
  by (simp add: exec_def split: prod.splits)

lemma valid_msg_id: "valid (validateMessage m) \<Longrightarrow> \<exists>i. msg_id m = JStr i"
  by (auto simp: valid_iff)

lemma saveMessage_replace:
  assumes "valid (validateMessage m)"
    and "findIndex (\<lambda>x. strict_eq (msg_id x) (msg_id m)) (messages s) = Some i"
  shows "saveMessage m s = exec (upsert_row m) (s\<lparr>messages := (messages s)[i := m]\<rparr>)"
  using assms by (simp add: saveMessage_def)

lemma saveMessage_append:
  assumes "valid (validateMessage m)"
    and "findIndex (\<lambda>x. strict_eq (msg_id x) (msg_id m)) (messages s) = None"
    and "length (messages s) < MAX_MESSAGES"
  shows "saveMessage m s = exec (upsert_row m) (s\<lparr>messages := messages s @ [m]\<rparr>)"
  using assms by (simp add: saveMessage_def)

lemma saveMessage_evict:
  assumes "valid (validateMessage m)"
    and "findIndex (\<lambda>x. strict_eq (msg_id x) (msg_id m)) (messages s) = None"
    and "messages s = old # rest" and "MAX_MESSAGES \<le> length (messages s)"
  shows "saveMessage m s =
           (case exec (DeleteWhereId (msg_id old)) (s\<lparr>messages := rest @ [m]\<rparr>) of
              (Some e, s') \<Rightarrow> (Some e, s')
            | (None, s') \<Rightarrow> exec (upsert_row m) s')"
  using assms by (simp add: saveMessage_def)

lemma saveMessage_messages:
  assumes "valid (validateMessage m)"
  shows "messages (snd (saveMessage m s)) = upsert_log m (messages s)"
proof (cases "findIndex (\<lambda>x. strict_eq (msg_id x) (msg_id m)) (messages s)")
  case (Some i)
  with assms show ?thesis
    by (simp add: saveMessage_replace upsert_log_def exec_frame)
next
  case None
  show ?thesis
  proof (cases "length (messages s) < MAX_MESSAGES")
    case True
    with assms None show ?thesis
      by (simp add: saveMessage_append upsert_log_def exec_frame)
  next
    case False
    then obtain old rest where l: "messages s = old # rest"
      by (cases "messages s") (auto simp: MAX_MESSAGES_def)
    from False have "MAX_MESSAGES \<le> length (messages s)" by simp
    from saveMessage_evict [OF assms None l this] l False None show ?thesis
      by (auto simp: upsert_log_def exec_frame split: prod.splits option.splits
          dest: arg_cong [where f = "\<lambda>r. messages (snd r)"])
  qed
qed

lemma saveMessage_invalid:
  "\<not> valid (validateMessage m) \<Longrightarrow> snd (saveMessage m s) = s"
  by (simp add: saveMessage_def)

lemma length_upsert_log:
  "length xs \<le> MAX_MESSAGES \<Longrightarrow> length (upsert_log m xs) \<le> MAX_MESSAGES"
  by (auto simp: upsert_log_def split: option.splits)

lemma saveMessage_length:
  "length (messages s) \<le> MAX_MESSAGES \<Longrightarrow>
   length (messages (snd (saveMessage m s))) \<le> MAX_MESSAGES"
  by (cases "valid (validateMessage m)")
    (simp_all add: saveMessage_messages length_upsert_log saveMessage_invalid)

lemma deleteMessage_length:
  "length (messages (snd (deleteMessage k s))) \<le> length (messages s)"
  by (simp add: deleteMessage_def exec_messages_update)

lemma onMessage_length:
  assumes "length (messages s) \<le> MAX_MESSAGES"
  shows "length (messages (snd (onMessage JSON_parse now c message s))) \<le> MAX_MESSAGES"
proof -
  obtain ok s1 where r: "checkRateLimit now c s = (ok, s1)"
    by (cases "checkRateLimit now c s")
  then have s1: "messages s1 = messages s"
    using checkRateLimit_frame(1) [of now c s] by simp
  have save: "length (messages (snd (saveMessage m s1))) \<le> MAX_MESSAGES" for m
    using assms s1 by (simp add: saveMessage_length)
  have del: "length (messages (snd (deleteMessage k s1))) \<le> MAX_MESSAGES" for k
    using assms s1 deleteMessage_length [of k s1] by simp
  show ?thesis
    using assms s1 save [of "as_ChatMessage (the (JSON_parse message))"]
      del [of "field (the (JSON_parse message)) (js ''id'')"]
    by (auto simp: onMessage_def onMessage_try_def r
        split: bool.splits option.splits sum.splits prod.splits)
qed

lemma onMessages_length:
  "length (messages s) \<le> MAX_MESSAGES \<Longrightarrow>
   length (messages (onMessages JSON_parse frames s)) \<le> MAX_MESSAGES"
proof (induction frames arbitrary: s)
  case Nil
  then show ?case by simp
next
  case (Cons f frames)
  obtain now c message where f: "f = (now, c, message)"
    by (cases f)
  show ?case
    unfolding f onMessages.simps
    by (rule Cons.IH) (rule onMessage_length [OF Cons.prems])
qed

lemma saveMessage_evict_issued:
  assumes "valid (validateMessage m)"
    and "findIndex (\<lambda>x. strict_eq (msg_id x) (msg_id m)) (messages s) = None"
    and "messages s = old # rest" and "MAX_MESSAGES \<le> length (messages s)"
  shows "issued (storage (snd (saveMessage m s))) =
           issued (storage s) @
             (case faults (storage s) of
                Some e # fs \<Rightarrow> [DeleteWhereId (msg_id old)]
              | _ \<Rightarrow> [DeleteWhereId (msg_id old), upsert_row m])"
  unfolding saveMessage_evict [OF assms]
  by (simp add: exec_def sql_exec_def split: list.splits option.splits)

lemma saveMessage_replace_issued:
  assumes "valid (validateMessage m)"
    and "findIndex (\<lambda>x. strict_eq (msg_id x) (msg_id m)) (messages s) = Some i"
  shows "issued (storage (snd (saveMessage m s))) = issued (storage s) @ [upsert_row m]"
  unfolding saveMessage_replace [OF assms]
  by (simp add: exec_issued)

text \<open>
  Claim C5. After any sequence of frames (\<open>add\<close> and \<open>update\<close> among them) handled
  from a log of at most \<open>MAX_MESSAGES = 1000\<close> entries, the log has at most 1000
  entries. An append to a log of 1000 entries evicts exactly the entry at position 0
  (the others keep their order and the new message comes last) and issues a durable
  delete for that entry's id as the first statement. A replace of an existing id
  evicts nothing: the log keeps its length and the only statement issued is the upsert.
\<close>

theorem log_capacity:
  "MAX_MESSAGES = 1000
   \<and> (length (messages s) \<le> MAX_MESSAGES \<longrightarrow>
        length (messages (onMessages JSON_parse frames s)) \<le> MAX_MESSAGES)
   \<and> (valid (validateMessage m)
        \<and> findIndex (\<lambda>x. strict_eq (msg_id x) (msg_id m)) (messages s) = None
        \<and> length (messages s) = MAX_MESSAGES \<and> messages s = old # rest \<longrightarrow>
          messages (snd (saveMessage m s)) = rest @ [m]
          \<and> take (Suc (length (issued (storage s)))) (issued (storage (snd (saveMessage m s))))
              = issued (storage s) @ [DeleteWhereId (msg_id old)])
   \<and> (valid (validateMessage m)
        \<and> findIndex (\<lambda>x. strict_eq (msg_id x) (msg_id m)) (messages s) = Some i \<longrightarrow>
          messages (snd (saveMessage m s)) = (messages s)[i := m]
          \<and> length (messages (snd (saveMessage m s))) = length (messages s)
          \<and> issued (storage (snd (saveMessage m s))) = issued (storage s) @ [upsert_row m])"
proof (intro conjI impI)
  show "MAX_MESSAGES = 1000"
    by (simp add: MAX_MESSAGES_def)
next
  assume "length (messages s) \<le> MAX_MESSAGES"
  then show "length (messages (onMessages JSON_parse frames s)) \<le> MAX_MESSAGES"
    by (rule onMessages_length)
next
  assume a: "valid (validateMessage m)
        \<and> findIndex (\<lambda>x. strict_eq (msg_id x) (msg_id m)) (messages s) = None
        \<and> length (messages s) = MAX_MESSAGES \<and> messages s = old # rest"
  then have v: "valid (validateMessage m)"
    and n: "findIndex (\<lambda>x. strict_eq (msg_id x) (msg_id m)) (messages s) = None"
    and len: "length (messages s) = MAX_MESSAGES" and l: "messages s = old # rest"
    by blast+
  from n len have "upsert_log m (messages s) = tl (messages s @ [m])"
    by (simp add: upsert_log_def)
  with v l show "messages (snd (saveMessage m s)) = rest @ [m]"
    by (simp add: saveMessage_messages)
  from v n l len have "issued (storage (snd (saveMessage m s))) =
           issued (storage s) @
             (case faults (storage s) of
                Some e # fs \<Rightarrow> [DeleteWhereId (msg_id old)]
              | _ \<Rightarrow> [DeleteWhereId (msg_id old), upsert_row m])"
    by (intro saveMessage_evict_issued) simp_all
  then show "take (Suc (length (issued (storage s)))) (issued (storage (snd (saveMessage m s))))
              = issued (storage s) @ [DeleteWhereId (msg_id old)]"
    by (simp split: list.splits option.splits)
next
  assume a: "valid (validateMessage m)
        \<and> findIndex (\<lambda>x. strict_eq (msg_id x) (msg_id m)) (messages s) = Some i"
  then show "messages (snd (saveMessage m s)) = (messages s)[i := m]"
    by (simp add: saveMessage_messages upsert_log_def)
  then show "length (messages (snd (saveMessage m s))) = length (messages s)"
    by simp
  from a show "issued (storage (snd (saveMessage m s))) = issued (storage s) @ [upsert_row m]"
    by (simp add: saveMessage_replace_issued)
qed


lemma hello_valid: "valid (validateMessage hello)"
  unfolding valid_iff by (simp add: hello_def js_def trim_empty_iff is_whitespace_def)

lemma edited_valid: "valid (validateMessage edited)"
  unfolding valid_iff by (simp add: edited_def js_def trim_empty_iff is_whitespace_def)

lemma hello_not_in_full_log:
  "findIndex (\<lambda>x. strict_eq (msg_id x) (msg_id hello)) (messages full_log) = None"
  unfolding findIndex_None_iff
  by (simp add: full_log_def initial_def numbered_def hello_def js_def)

lemma upt_1000: "[0..<1000] = 0 # [1..<1000]"
proof -
  have "[0..<1000] = 0 # [Suc 0..<1000]"
    by (rule upt_conv_Cons) simp
  then show ?thesis
    by (simp only: One_nat_def)
qed

lemma full_log_messages:
  "length (messages full_log) = MAX_MESSAGES"
  "messages full_log = numbered 0 # map numbered [1..<1000]"
proof -
  show "length (messages full_log) = MAX_MESSAGES"
    by (simp add: full_log_def initial_def MAX_MESSAGES_def)
  have "messages full_log = map numbered [0..<1000]"
    by (simp add: full_log_def initial_def)
  then show "messages full_log = numbered 0 # map numbered [1..<1000]"
    by (simp only: upt_1000 list.map)
qed

lemma edited_in_one_message:
  "findIndex (\<lambda>x. strict_eq (msg_id x) (msg_id edited)) (messages one_message) = Some 0"
  by (simp add: one_message_def initial_def hello_def edited_def)

theorem log_capacity_witness:
  "length (messages initial) \<le> MAX_MESSAGES
   \<and> length (messages (onMessages parse_examples [(0, c1, add_frame), (1, c1, update_frame)] initial))
       \<le> MAX_MESSAGES
   \<and> length (messages full_log) = MAX_MESSAGES
   \<and> messages (snd (saveMessage hello full_log)) = map numbered [1..<1000] @ [hello]
   \<and> take 1 (issued (storage (snd (saveMessage hello full_log))))
       = [DeleteWhereId (msg_id (numbered 0))]
   \<and> messages (snd (saveMessage edited one_message)) = [edited]
   \<and> issued (storage (snd (saveMessage edited one_message)))
       = [upsert_row hello, upsert_row edited]"
proof -
  have 0: "length (messages initial) \<le> MAX_MESSAGES"
    by (simp add: initial_def)
  have 1: "length (messages (onMessages parse_examples [(0, c1, add_frame), (1, c1, update_frame)] initial))
       \<le> MAX_MESSAGES"
    using log_capacity [of initial parse_examples "[(0, c1, add_frame), (1, c1, update_frame)]"] 0
    by blast
  have 2: "messages (snd (saveMessage hello full_log)) = map numbered [1..<1000] @ [hello]
      \<and> take (Suc (length (issued (storage full_log))))
            (issued (storage (snd (saveMessage hello full_log))))
          = issued (storage full_log) @ [DeleteWhereId (msg_id (numbered 0))]"
    using log_capacity [of full_log _ _ hello "numbered 0" "map numbered [1..<1000]"]
      hello_valid hello_not_in_full_log full_log_messages
    by blast
  have 3: "messages (snd (saveMessage edited one_message)) = (messages one_message)[0 := edited]
      \<and> issued (storage (snd (saveMessage edited one_message)))
          = issued (storage one_message) @ [upsert_row edited]"
    using log_capacity [of one_message _ _ edited _ _ 0] edited_valid edited_in_one_message
    by blast
  have "issued (storage full_log) = []" "issued (storage one_message) = [upsert_row hello]"
    "messages one_message = [hello]"
    by (simp_all add: full_log_def one_message_def initial_def)
  with 0 1 2 3 full_log_messages(1) show ?thesis
    by simp
qed

lemma precedes_pair: "a \<noteq> b \<Longrightarrow> precedes a b [a, b] \<and> \<not> precedes b a [a, b]"
  by (simp add: precedes_def)

lemma hello_evicts_issued:
  "issued (storage (snd (saveMessage hello full_log))) =
     [DeleteWhereId (msg_id (numbered 0)), upsert_row hello]"
proof -
  have "MAX_MESSAGES \<le> length (messages full_log)"
    by (simp add: full_log_messages(1))
  from saveMessage_evict_issued
    [OF hello_valid hello_not_in_full_log full_log_messages(2) this]
  show ?thesis
    by (simp add: full_log_def initial_def)
qed

text \<open>
  Claim C3 says that, when an append makes the log exceed \<open>MAX_MESSAGES\<close>, the durable
  insert of the new message comes before the durable delete of the evicted entry.
  \<open>saveMessage\<close> issues them the other way round: saving \<open>hello\<close> into the log at
  capacity issues the delete of the evicted row \<open>k0\<close> first and the insert second.
\<close>

theorem insert_before_prune_counterexample:
  "MAX_MESSAGES < length (messages full_log @ [hello])
   \<and> issued (storage full_log) = []
   \<and> precedes (DeleteWhereId (msg_id (numbered 0))) (upsert_row hello)
        (issued (storage (snd (saveMessage hello full_log))))
   \<and> \<not> precedes (upsert_row hello) (DeleteWhereId (msg_id (numbered 0)))
        (issued (storage (snd (saveMessage hello full_log))))"
proof -
  have "DeleteWhereId (msg_id (numbered 0)) \<noteq> upsert_row hello"
    by (simp add: upsert_row_def)
  from precedes_pair [OF this] show ?thesis
    by (simp add: hello_evicts_issued full_log_messages(1))
      (simp add: full_log_def initial_def)
qed

text \<open>
  Claim C3, amended. Whenever appending a new message makes the log exceed
  \<open>MAX_MESSAGES\<close>, the durable delete of the evicted oldest entry is sequenced before
  the durable insert of the new message (prune before insert): one \<open>saveMessage\<close>
  issues the delete of the evicted row and then, when that delete did not raise, the
  insert of the new row; the insert never precedes the delete.
\<close>

theorem prune_before_insert:
  assumes "valid (validateMessage m)"
    and "findIndex (\<lambda>x. strict_eq (msg_id x) (msg_id m)) (messages s) = None"
    and "messages s = old # rest"
    and "MAX_MESSAGES < length (messages s @ [m])"
  shows "issued (storage (snd (saveMessage m s))) =
           issued (storage s) @
             (case faults (storage s) of
                Some e # fs \<Rightarrow> [DeleteWhereId (msg_id old)]
              | _ \<Rightarrow> [DeleteWhereId (msg_id old), upsert_row m])
         \<and> \<not> precedes (upsert_row m) (DeleteWhereId (msg_id old))
               (drop (length (issued (storage s))) (issued (storage (snd (saveMessage m s)))))"
proof -
  from assms(4) have "MAX_MESSAGES \<le> length (messages s)"
    by simp
  from saveMessage_evict_issued [OF assms(1-3) this]
  show ?thesis
    by (simp add: precedes_def upsert_row_def split: list.splits option.splits)
qed

theorem prune_before_insert_witness:
  "valid (validateMessage hello)
   \<and> MAX_MESSAGES < length (messages full_log @ [hello])
   \<and> issued (storage (snd (saveMessage hello full_log))) =
       [DeleteWhereId (msg_id (numbered 0)), upsert_row hello]
   \<and> issued (storage (snd (saveMessage hello
         (full_log\<lparr>storage := (storage full_log)\<lparr>faults := [Some (JsError (js ''disk full''))]\<rparr>\<rparr>)))) =
       [DeleteWhereId (msg_id (numbered 0))]"
proof -
  let ?broken = "full_log\<lparr>storage := (storage full_log)\<lparr>faults := [Some (JsError (js ''disk full''))]\<rparr>\<rparr>"
  have len: "MAX_MESSAGES < length (messages full_log @ [hello])"
    by (simp add: full_log_messages(1))
  have 1: "issued (storage (snd (saveMessage hello full_log))) =
       [DeleteWhereId (msg_id (numbered 0)), upsert_row hello]"
    using prune_before_insert [OF hello_valid hello_not_in_full_log full_log_messages(2) len]
    by (simp add: full_log_def initial_def)
  have m: "messages ?broken = messages full_log"
    by simp
  have 2: "issued (storage (snd (saveMessage hello ?broken))) = [DeleteWhereId (msg_id (numbered 0))]"
    using prune_before_insert [of hello ?broken "numbered 0" "map numbered [1..<1000]"]
      hello_valid hello_not_in_full_log full_log_messages(2) len
    unfolding m by (simp add: full_log_def initial_def)
  from hello_valid len 1 2 show ?thesis
    by blast
qed

section \<open>The durable upsert\<close>

lemma saveMessage_ok_valid: "fst (saveMessage m s) = None \<Longrightarrow> valid (validateMessage m)"
  by (simp add: saveMessage_def Let_def split: if_splits)

lemma exec_ok_last:
  "fst (exec q s) = None \<Longrightarrow> last (issued (storage (snd (exec q s)))) = q"
  by (simp add: exec_issued)

lemma exec_id_text: "id_text (storage (snd (exec q s))) = id_text (storage s)"
  by (simp add: exec_def sql_exec_def split: prod.splits list.splits option.splits)

lemma typeof_TString: "typeof v = TString \<longleftrightarrow> (\<exists>s. v = JStr s)"
  by (cases v) auto

lemma sql_run_upsert_row:
  "msg_id m = JStr k \<Longrightarrow>
   sql_run txt (upsert_row m) t (msg_id m) =
     Some (case t (msg_id m) of
             None \<Rightarrow> row_of m
           | Some row \<Rightarrow> row\<lparr>col_content := content m, col_timestamp := timestamp m\<rparr>)"
  by (simp add: upsert_row_def row_of_def split: option.splits)

lemma sql_run_delete_absent:
  "t k = None \<Longrightarrow> sql_run txt (DeleteWhereId v) t k = None"
  by (simp split: option.splits)

lemma sql_run_delete_other_string:
  assumes "typeof v = TString" and "v \<noteq> JStr k"
  shows "sql_run txt (DeleteWhereId v) t (JStr k) = t (JStr k)"
proof -
  from assms(1) obtain a where "v = JStr a"
    by (auto simp: typeof_TString)
  with assms(2) show ?thesis
    by simp
qed

text \<open>The table on which the upsert of a successful \<open>saveMessage\<close> runs: the table
  as it was, or that table after the delete of an evicted entry whose id is not the
  message's.\<close>

lemma saveMessage_ok_table:
  assumes "fst (saveMessage m s) = None"
  shows "last (issued (storage (snd (saveMessage m s)))) = upsert_row m
         \<and> (\<exists>t0. (t0 = table (storage s)
                  \<or> (\<exists>old \<in> set (messages s). \<not> strict_eq (msg_id old) (msg_id m)
                        \<and> t0 = sql_run (id_text (storage s)) (DeleteWhereId (msg_id old))
                                 (table (storage s))))
                \<and> table (storage (snd (saveMessage m s))) =
                    sql_run (id_text (storage s)) (upsert_row m) t0)"
proof -
  have v: "valid (validateMessage m)"
    using assms by (rule saveMessage_ok_valid)
  let ?find = "findIndex (\<lambda>x. strict_eq (msg_id x) (msg_id m)) (messages s)"
  have direct: ?thesis if eq: "saveMessage m s = exec (upsert_row m) (s\<lparr>messages := xs\<rparr>)" for xs
  proof -
    from assms eq have ok: "fst (exec (upsert_row m) (s\<lparr>messages := xs\<rparr>)) = None"
      by simp
    from exec_ok_last [OF ok] exec_ok_table [OF ok] show ?thesis
      by (auto simp: eq)
  qed
  show ?thesis
  proof (cases ?find)
    case (Some i)
    from direct [OF saveMessage_replace [OF v Some]] show ?thesis .
  next
    case None
    show ?thesis
    proof (cases "length (messages s) < MAX_MESSAGES")
      case True
      from direct [OF saveMessage_append [OF v None True]] show ?thesis .
    next
      case False
      then obtain old rest where l: "messages s = old # rest"
        by (cases "messages s") (auto simp: MAX_MESSAGES_def)
      from False have full: "MAX_MESSAGES \<le> length (messages s)"
        by simp
      let ?s0 = "s\<lparr>messages := rest @ [m]\<rparr>"
      let ?d = "exec (DeleteWhereId (msg_id old)) ?s0"
      note ev = saveMessage_evict [OF v None l full]
      from assms ev have d_ok: "fst ?d = None"
        by (cases ?d) (auto split: option.splits)
      then have eq: "saveMessage m s = exec (upsert_row m) (snd ?d)"
        using ev by (cases ?d) simp
      with assms have u_ok: "fst (exec (upsert_row m) (snd ?d)) = None"
        by simp
      from None have "\<forall>x \<in> set (messages s). \<not> strict_eq (msg_id x) (msg_id m)"
        by (simp only: findIndex_None_iff)
      with l have old: "old \<in> set (messages s)" "\<not> strict_eq (msg_id old) (msg_id m)"
        by simp_all
      have t0: "table (storage (snd ?d)) =
          sql_run (id_text (storage s)) (DeleteWhereId (msg_id old)) (table (storage s))"
        using exec_ok_table [OF d_ok] by simp
      have "table (storage (snd (saveMessage m s))) =
          sql_run (id_text (storage s)) (upsert_row m) (table (storage (snd ?d)))"
        using exec_ok_table [OF u_ok] exec_id_text [of "DeleteWhereId (msg_id old)" ?s0]
        by (simp add: eq)
      with exec_ok_last [OF u_ok] old t0 show ?thesis
        by (auto simp: eq)
    qed
  qed
qed

lemma saveMessage_ok_row:
  assumes "fst (saveMessage m s) = None"
    and "\<forall>x \<in> set (messages s). typeof (msg_id x) = TString"
  shows "table (storage (snd (saveMessage m s))) (msg_id m) =
           Some (case table (storage s) (msg_id m) of
                   None \<Rightarrow> row_of m
                 | Some row \<Rightarrow> row\<lparr>col_content := content m, col_timestamp := timestamp m\<rparr>)"
proof -
  from saveMessage_ok_valid [OF assms(1)] obtain k where k: "msg_id m = JStr k"
    using valid_msg_id by blast
  from saveMessage_ok_table [OF assms(1)] obtain t0
    where t0: "t0 = table (storage s)
                  \<or> (\<exists>old \<in> set (messages s). \<not> strict_eq (msg_id old) (msg_id m)
                        \<and> t0 = sql_run (id_text (storage s)) (DeleteWhereId (msg_id old))
                                 (table (storage s)))"
      and tab: "table (storage (snd (saveMessage m s))) =
                    sql_run (id_text (storage s)) (upsert_row m) t0"
    by blast
  from t0 assms(2) have "t0 (msg_id m) = table (storage s) (msg_id m)"
    unfolding k by (auto simp: sql_run_delete_other_string simp del: sql_run.simps)
  with tab show ?thesis
    by (simp add: sql_run_upsert_row [OF k])
qed

lemma saveMessage_ok_new_row:
  assumes "fst (saveMessage m s) = None" and "table (storage s) (msg_id m) = None"
  shows "table (storage (snd (saveMessage m s))) (msg_id m) = Some (row_of m)"
proof -
  from saveMessage_ok_valid [OF assms(1)] obtain k where k: "msg_id m = JStr k"
    using valid_msg_id by blast
  from saveMessage_ok_table [OF assms(1)] obtain t0
    where t0: "t0 = table (storage s)
                  \<or> (\<exists>old \<in> set (messages s). \<not> strict_eq (msg_id old) (msg_id m)
                        \<and> t0 = sql_run (id_text (storage s)) (DeleteWhereId (msg_id old))
                                 (table (storage s)))"
      and tab: "table (storage (snd (saveMessage m s))) =
                    sql_run (id_text (storage s)) (upsert_row m) t0"
    by blast
  from t0 assms(2) have "t0 (msg_id m) = None"
    by (auto simp: sql_run_delete_absent simp del: sql_run.simps)
  with tab show ?thesis
    by (simp add: sql_run_upsert_row [OF k])
qed

text \<open>The ids of the log are strings: \<open>saveMessage\<close> appends validated messages only,
  and the rows loaded at start come from a \<open>TEXT\<close> column.\<close>

lemma upsert_log_string_ids:
  assumes "valid (validateMessage m)" and "\<forall>x \<in> set xs. typeof (msg_id x) = TString"
  shows "\<forall>x \<in> set (upsert_log m xs). typeof (msg_id x) = TString"
proof -
  from assms(1) have m: "typeof (msg_id m) = TString"
    using valid_msg_id [of m] by (auto simp: typeof_TString)
  have "set (upsert_log m xs) \<subseteq> insert m (set xs)"
    by (auto simp: upsert_log_def split: option.splits dest: set_update_subset_insert [THEN subsetD]
        list.set_sel(2) [rotated])
  with assms(2) m show ?thesis
    by auto
qed

lemma saveMessage_string_ids:
  "\<forall>x \<in> set (messages s). typeof (msg_id x) = TString \<Longrightarrow>
   \<forall>x \<in> set (messages (snd (saveMessage m s))). typeof (msg_id x) = TString"
  by (cases "valid (validateMessage m)")
    (simp_all add: saveMessage_messages upsert_log_string_ids saveMessage_invalid)

lemma edited_saved: "fst (saveMessage edited one_message) = None"
  unfolding saveMessage_replace [OF edited_valid edited_in_one_message]
  by (simp add: exec_def sql_exec_def one_message_def initial_def)

lemma one_message_row: "table (storage one_message) (msg_id edited) = Some (row_of hello)"
  by (simp add: one_message_def initial_def hello_def edited_def)

text \<open>
  Claim C4 says that the durable upsert overwrites the content, role and timestamp
  columns of an existing row. The statement's conflict clause is
  \<open>DO UPDATE SET content = ?, timestamp = ?\<close>: saving \<open>edited\<close> (role
  \<open>assistant\<close>) over the row of \<open>hello\<close> (role \<open>user\<close>) leaves the role column at
  \<open>user\<close>.
\<close>

theorem upsert_keeps_role_counterexample:
  "valid (validateMessage edited)
   \<and> table (storage one_message) (msg_id edited) = Some (row_of hello)
   \<and> fst (saveMessage edited one_message) = None
   \<and> map_option col_role (table (storage (snd (saveMessage edited one_message))) (msg_id edited))
       = Some (JStr (js ''user''))
   \<and> role edited = JStr (js ''assistant'')
   \<and> JStr (js ''user'') \<noteq> JStr (js ''assistant'')"
proof -
  have "\<forall>x \<in> set (messages one_message). typeof (msg_id x) = TString"
    by (simp add: one_message_def initial_def hello_def)
  from saveMessage_ok_row [OF edited_saved this]
  have "table (storage (snd (saveMessage edited one_message))) (msg_id edited) =
      Some ((row_of hello)\<lparr>col_content := content edited, col_timestamp := timestamp edited\<rparr>)"
    by (simp add: one_message_row)
  then have "map_option col_role
      (table (storage (snd (saveMessage edited one_message))) (msg_id edited)) = Some (JStr (js ''user''))"
    by (simp add: row_of_def hello_def)
  moreover have "role edited = JStr (js ''assistant'')"
    by (simp add: edited_def)
  moreover have "JStr (js ''user'') \<noteq> JStr (js ''assistant'')"
    by (simp add: js_def)
  ultimately show ?thesis
    using edited_valid one_message_row edited_saved by blast
qed

text \<open>
  Claim C4, amended. For every valid message whose id already has a durable row, the
  durable upsert (insert with on-conflict handling keyed by id) overwrites the existing
  row's content and timestamp columns with the new message's values and leaves its user
  and role columns as they were; a message whose id has no row gets a row with all its
  columns. This durable upsert is the last statement of every successful save, whether
  the in-memory operation was an insert or a replace. (For the existing row the ids of
  the log are taken to be strings, as they are in every log the actor builds: the delete
  of an evicted entry compares ids as text.)
\<close>

theorem upsert_overwrites_content_and_timestamp:
  assumes "fst (saveMessage m s) = None"
  shows "valid (validateMessage m)
         \<and> last (issued (storage (snd (saveMessage m s)))) = upsert_row m
         \<and> (\<forall>row. table (storage s) (msg_id m) = Some row
                  \<and> (\<forall>x \<in> set (messages s). typeof (msg_id x) = TString) \<longrightarrow>
               table (storage (snd (saveMessage m s))) (msg_id m) =
                 Some \<lparr>col_user = col_user row, col_role = col_role row,
                       col_content = content m, col_timestamp = timestamp m\<rparr>)
         \<and> (table (storage s) (msg_id m) = None \<longrightarrow>
               table (storage (snd (saveMessage m s))) (msg_id m) =
                 Some \<lparr>col_user = user m, col_role = role m,
                       col_content = content m, col_timestamp = timestamp m\<rparr>)"
proof (intro conjI allI impI)
  show "valid (validateMessage m)"
    using assms by (rule saveMessage_ok_valid)
  show "last (issued (storage (snd (saveMessage m s)))) = upsert_row m"
    using saveMessage_ok_table [OF assms] by blast
next
  fix row
  assume "table (storage s) (msg_id m) = Some row
            \<and> (\<forall>x \<in> set (messages s). typeof (msg_id x) = TString)"
  then show "table (storage (snd (saveMessage m s))) (msg_id m) =
                 Some \<lparr>col_user = col_user row, col_role = col_role row,
                       col_content = content m, col_timestamp = timestamp m\<rparr>"
    using saveMessage_ok_row [OF assms] by simp
next
  assume "table (storage s) (msg_id m) = None"
  then show "table (storage (snd (saveMessage m s))) (msg_id m) =
                 Some \<lparr>col_user = user m, col_role = role m,
                       col_content = content m, col_timestamp = timestamp m\<rparr>"
    using saveMessage_ok_new_row [OF assms] by (simp add: row_of_def)
qed

theorem upsert_overwrites_content_and_timestamp_witness:
  "fst (saveMessage edited one_message) = None
   \<and> table (storage one_message) (msg_id edited) =
       Some \<lparr>col_user = JStr (js ''Alice''), col_role = JStr (js ''user''),
             col_content = JStr (js ''hi''), col_timestamp = JNum (Finite 1700000000000)\<rparr>
   \<and> table (storage (snd (saveMessage edited one_message))) (msg_id edited) =
       Some \<lparr>col_user = JStr (js ''Alice''), col_role = JStr (js ''user''),
             col_content = JStr (js ''edited''), col_timestamp = JNum (Finite 1700000000001)\<rparr>
   \<and> last (issued (storage (snd (saveMessage edited one_message)))) = upsert_row edited"
proof -
  have row: "table (storage one_message) (msg_id edited) =
       Some \<lparr>col_user = JStr (js ''Alice''), col_role = JStr (js ''user''),
             col_content = JStr (js ''hi''), col_timestamp = JNum (Finite 1700000000000)\<rparr>"
    by (simp add: one_message_row row_of_def hello_def)
  have ids: "\<forall>x \<in> set (messages one_message). typeof (msg_id x) = TString"
    by (simp add: one_message_def initial_def hello_def)
  from upsert_overwrites_content_and_timestamp [OF edited_saved] row ids edited_saved
  show ?thesis
    by (simp add: edited_def)
qed

section \<open>Failures of the durable store\<close>

lemma exec_faults: "faults (storage (snd (exec q s))) = tl (faults (storage s))"
  by (simp add: exec_def sql_exec_def split: prod.splits list.splits option.splits)

lemma mem_upsert_log: "m \<in> set (upsert_log m xs)"
proof (cases "findIndex (\<lambda>x. strict_eq (msg_id x) (msg_id m)) xs")
  case None
  then show ?thesis
    by (cases xs) (simp_all add: upsert_log_def MAX_MESSAGES_def)
next
  case (Some i)
  then have "i < length xs"
    by (auto dest: findIndex_Some_D)
  with Some show ?thesis
    by (simp add: upsert_log_def set_update_memI)
qed

text \<open>A raising durable call makes \<open>saveMessage\<close> throw what the call raised: the
  first call of a save, or the upsert of a save whose evicting delete went through.\<close>

lemma exec_raises: "faults (storage s) = Some e # fs \<Longrightarrow> fst (exec q s) = Some e"
  by (simp add: exec_def sql_exec_def)

lemma exec_passes:
  "faults (storage s) = None # fs \<Longrightarrow>
   fst (exec q s) = None \<and> faults (storage (snd (exec q s))) = fs"
  by (simp add: exec_def sql_exec_def)

lemma saveMessage_first_call_raises:
  assumes v: "valid (validateMessage m)" and f: "faults (storage s) = Some e # fs"
  shows "fst (saveMessage m s) = Some e"
proof -
  have raised: "fst (exec q (s\<lparr>messages := xs\<rparr>)) = Some e" for q xs
    using f by (intro exec_raises) simp
  show ?thesis
  proof (cases "findIndex (\<lambda>x. strict_eq (msg_id x) (msg_id m)) (messages s)")
    case (Some i)
    with v raised show ?thesis
      by (simp add: saveMessage_replace)
  next
    case None
    show ?thesis
    proof (cases "length (messages s) < MAX_MESSAGES")
      case True
      with v None raised show ?thesis
        by (simp add: saveMessage_append)
    next
      case False
      then obtain old rest where l: "messages s = old # rest"
        by (cases "messages s") (auto simp: MAX_MESSAGES_def)
      from False have full: "MAX_MESSAGES \<le> length (messages s)"
        by simp
      from raised [of "DeleteWhereId (msg_id old)" "rest @ [m]"] show ?thesis
        unfolding saveMessage_evict [OF v None l full]
        by (cases "exec (DeleteWhereId (msg_id old)) (s\<lparr>messages := rest @ [m]\<rparr>)") simp
    qed
  qed
qed

lemma saveMessage_upsert_raises:
  assumes v: "valid (validateMessage m)"
    and n: "findIndex (\<lambda>x. strict_eq (msg_id x) (msg_id m)) (messages s) = None"
    and full: "MAX_MESSAGES \<le> length (messages s)"
    and f: "faults (storage s) = None # Some e # fs"
  shows "fst (saveMessage m s) = Some e"
proof -
  from full obtain old rest where l: "messages s = old # rest"
    by (cases "messages s") (auto simp: MAX_MESSAGES_def)
  let ?d = "exec (DeleteWhereId (msg_id old)) (s\<lparr>messages := rest @ [m]\<rparr>)"
  from f have "fst ?d = None \<and> faults (storage (snd ?d)) = Some e # fs"
    by (intro exec_passes) simp
  then have "fst ?d = None" and "fst (exec (upsert_row m) (snd ?d)) = Some e"
    by (auto intro: exec_raises)
  then show ?thesis
    unfolding saveMessage_evict [OF v n l full] by (cases ?d) simp
qed

text \<open>After a save that threw, the table is as it was, but for the row of an evicted
  entry when its delete went through.\<close>

lemma saveMessage_failed_table:
  assumes v: "valid (validateMessage m)" and f: "fst (saveMessage m s) = Some e"
  shows "table (storage (snd (saveMessage m s))) = table (storage s)
         \<or> (\<exists>old \<in> set (messages s). \<not> strict_eq (msg_id old) (msg_id m)
               \<and> table (storage (snd (saveMessage m s))) =
                   sql_run (id_text (storage s)) (DeleteWhereId (msg_id old)) (table (storage s)))"
proof -
  let ?find = "findIndex (\<lambda>x. strict_eq (msg_id x) (msg_id m)) (messages s)"
  have direct: ?thesis if eq: "saveMessage m s = exec (upsert_row m) (s\<lparr>messages := xs\<rparr>)" for xs
  proof -
    from f eq have bad: "fst (exec (upsert_row m) (s\<lparr>messages := xs\<rparr>)) = Some e"
      by simp
    from exec_failed_table [OF bad] show ?thesis
      by (simp add: eq)
  qed
  show ?thesis
  proof (cases ?find)
    case (Some i)
    from direct [OF saveMessage_replace [OF v Some]] show ?thesis .
  next
    case None
    show ?thesis
    proof (cases "length (messages s) < MAX_MESSAGES")
      case True
      from direct [OF saveMessage_append [OF v None True]] show ?thesis .
    next
      case False
      then obtain old rest where l: "messages s = old # rest"
        by (cases "messages s") (auto simp: MAX_MESSAGES_def)
      from False have full: "MAX_MESSAGES \<le> length (messages s)"
        by simp
      let ?s0 = "s\<lparr>messages := rest @ [m]\<rparr>"
      let ?d = "exec (DeleteWhereId (msg_id old)) ?s0"
      note ev = saveMessage_evict [OF v None l full]
      show ?thesis
      proof (cases "fst ?d")
        case (Some e')
        with ev have eq: "saveMessage m s = (Some e', snd ?d)"
          by (cases ?d) simp
        from Some exec_failed_table [of "DeleteWhereId (msg_id old)" ?s0 e']
        show ?thesis
          by (simp add: eq)
      next
        case d_ok: None
        then have eq: "saveMessage m s = exec (upsert_row m) (snd ?d)"
          using ev by (cases ?d) simp
        with f have bad: "fst (exec (upsert_row m) (snd ?d)) = Some e"
          by simp
        from None have "\<forall>x \<in> set (messages s). \<not> strict_eq (msg_id x) (msg_id m)"
          by (simp only: findIndex_None_iff)
        with l have old: "old \<in> set (messages s)" "\<not> strict_eq (msg_id old) (msg_id m)"
          by simp_all
        have "table (storage (snd ?d)) =
            sql_run (id_text (storage s)) (DeleteWhereId (msg_id old)) (table (storage s))"
          using exec_ok_table [OF d_ok] by simp
        with exec_failed_table [OF bad] old show ?thesis
          by (auto simp: eq)
      qed
    qed
  qed
qed

lemma saveMessage_failed_row:
  assumes "valid (validateMessage m)" and "fst (saveMessage m s) = Some e"
    and "\<forall>x \<in> set (messages s). typeof (msg_id x) = TString"
  shows "table (storage (snd (saveMessage m s))) (msg_id m) = table (storage s) (msg_id m)"
proof -
  from assms(1) obtain k where k: "msg_id m = JStr k"
    using valid_msg_id by blast
  from saveMessage_failed_table [OF assms(1,2)] assms(3) show ?thesis
    unfolding k by (auto simp: sql_run_delete_other_string simp del: sql_run.simps)
qed

text \<open>
  Claim C8. For every \<open>add\<close> or \<open>update\<close> frame that passes rate limiting and
  validation, if the durable call raises \<open>e\<close> (the first durable call of the save,
  whichever it is, or the upsert after an evicting delete that went through), then
  \<open>saveMessage\<close> throws \<open>e\<close> and nothing is broadcast; the sender alone receives an
  \<open>error\<close> event, carrying the message of the raised \<open>Error\<close>, or
  \<open>"Failed to save message"\<close> when what was raised is not an \<open>Error\<close>; the
  in-memory log holds the mutation while the durable row of the message's id is as it
  was (the ids of the log being strings, as in every log the actor builds); and nothing
  reaches the handler's outer \<open>catch\<close>, let alone its caller.
\<close>

theorem save_failure_reported:
  assumes "JSON_parse message = Some parsed"
    and "get_prop parsed (js ''type'') = Inr ty"
    and "ty = JStr (js ''add'') \<or> ty = JStr (js ''update'')"
    and "checkRateLimit now c s = (True, s1)"
    and "valid (validateMessage (as_ChatMessage parsed))"
    and "faults (storage s) = Some e # fs
         \<or> (findIndex (\<lambda>x. strict_eq (msg_id x) (msg_id (as_ChatMessage parsed))) (messages s) = None
             \<and> MAX_MESSAGES \<le> length (messages s)
             \<and> faults (storage s) = None # Some e # fs)"
  shows "fst (saveMessage (as_ChatMessage parsed) s1) = Some e
         \<and> onMessage_try JSON_parse now c message s =
             (None,
              [Send c (ErrorEvent (case e of JsError msg \<Rightarrow> msg
                                   | JsThrown v \<Rightarrow> js ''Failed to save message''))],
              snd (saveMessage (as_ChatMessage parsed) s1))
         \<and> fst (onMessage JSON_parse now c message s) =
             [Send c (ErrorEvent (case e of JsError msg \<Rightarrow> msg
                                  | JsThrown v \<Rightarrow> js ''Failed to save message''))]
         \<and> receivers conns
              (Send c (ErrorEvent (case e of JsError msg \<Rightarrow> msg
                                   | JsThrown v \<Rightarrow> js ''Failed to save message''))) = [c]
         \<and> messages (snd (onMessage JSON_parse now c message s)) =
             upsert_log (as_ChatMessage parsed) (messages s)
         \<and> as_ChatMessage parsed \<in> set (messages (snd (onMessage JSON_parse now c message s)))
         \<and> ((\<forall>x \<in> set (messages s). typeof (msg_id x) = TString) \<longrightarrow>
              table (storage (snd (onMessage JSON_parse now c message s)))
                (msg_id (as_ChatMessage parsed)) =
              table (storage s) (msg_id (as_ChatMessage parsed)))"
proof -
  let ?m = "as_ChatMessage parsed"
  let ?s2 = "snd (saveMessage ?m s1)"
  let ?reply = "[Send c (ErrorEvent (case e of JsError msg \<Rightarrow> msg
                                 | JsThrown v \<Rightarrow> js ''Failed to save message''))]"
  from assms(4) have s1: "messages s1 = messages s" "storage s1 = storage s"
    using checkRateLimit_frame(1,2) [of now c s] by simp_all
  from assms(6) have f: "fst (saveMessage ?m s1) = Some e"
  proof
    assume "faults (storage s) = Some e # fs"
    with s1 show ?thesis
      by (intro saveMessage_first_call_raises [OF assms(5)]) simp
  next
    assume "findIndex (\<lambda>x. strict_eq (msg_id x) (msg_id ?m)) (messages s) = None
             \<and> MAX_MESSAGES \<le> length (messages s)
             \<and> faults (storage s) = None # Some e # fs"
    with s1 show ?thesis
      by (intro saveMessage_upsert_raises [OF assms(5)]) simp_all
  qed
  then obtain s2 where save: "saveMessage ?m s1 = (Some e, s2)"
    by (cases "saveMessage ?m s1") auto
  then have s2: "?s2 = s2"
    by simp
  have "onMessage_try JSON_parse now c message s = (None, ?reply, s2)"
    using assms(1-4) save by (auto simp: onMessage_try_def)
  then have tried: "onMessage_try JSON_parse now c message s = (None, ?reply, ?s2)"
    by (simp only: s2)
  then have on: "onMessage JSON_parse now c message s = (?reply, ?s2)"
    by (simp add: onMessage_def)
  have row: "table (storage ?s2) (msg_id ?m) = table (storage s) (msg_id ?m)"
    if "\<forall>x \<in> set (messages s). typeof (msg_id x) = TString"
    using saveMessage_failed_row [OF assms(5) f] that s1 by simp
  have "messages ?s2 = upsert_log ?m (messages s)"
    using saveMessage_messages [OF assms(5), of s1] s1 by simp
  with f tried on row show ?thesis
    by (simp add: mem_upsert_log)
qed

lemma failing_store_admitted:
  "checkRateLimit 0 c1 (failing_store e) =
     (True, (failing_store e)\<lparr>rateLimitMap := [c1 \<mapsto> \<lparr>count = 1, windowStart = 0\<rparr>]\<rparr>)"
  by (simp add: checkRateLimit_def failing_store_def initial_def)

lemma failing_store_save:
  "saveMessage hello ((failing_store e)\<lparr>rateLimitMap := r\<rparr>) =
     (Some e,
      (failing_store e)\<lparr>rateLimitMap := r, messages := [hello],
        storage := \<lparr>table = Map.empty, faults = [], issued = [upsert_row hello],
                    id_text = text_examples\<rparr>\<rparr>)"
proof -
  let ?s = "(failing_store e)\<lparr>rateLimitMap := r\<rparr>"
  have "findIndex (\<lambda>x. strict_eq (msg_id x) (msg_id hello)) (messages ?s) = None"
    and "length (messages ?s) < MAX_MESSAGES"
    by (simp_all add: failing_store_def initial_def MAX_MESSAGES_def)
  from saveMessage_append [OF hello_valid this] show ?thesis
    by (simp add: exec_def sql_exec_def failing_store_def initial_def)
qed

lemma add_value_type: "get_prop add_value (js ''type'') = Inr (JStr (js ''add''))"
  by (simp add: add_value_def js_def)

lemma full_log_faults_state:
  "messages (full_log_faults fs) = messages full_log"
  "faults (storage (full_log_faults fs)) = fs"
  "rateLimitMap (full_log_faults fs) c1 = None"
  "table (storage (full_log_faults fs)) (msg_id hello) = None"
  by (simp_all add: full_log_faults_def full_log_def initial_def map_of_eq_None_iff
      numbered_def hello_def js_def image_iff)

lemma full_log_string_ids: "\<forall>x \<in> set (messages full_log). typeof (msg_id x) = TString"
  by (simp add: full_log_def initial_def numbered_def)

theorem save_failure_reported_witness:
  "fst (onMessage parse_examples 0 c1 add_frame (failing_store (JsError (js ''disk full'')))) =
     [Send c1 (ErrorEvent (js ''disk full''))]
   \<and> messages (snd (onMessage parse_examples 0 c1 add_frame
                       (failing_store (JsError (js ''disk full''))))) = [hello]
   \<and> table (storage (snd (onMessage parse_examples 0 c1 add_frame
                             (failing_store (JsError (js ''disk full'')))))) (msg_id hello) = None
   \<and> fst (onMessage parse_examples 0 c1 add_frame (failing_store (JsThrown JNull))) =
       [Send c1 (ErrorEvent (js ''Failed to save message''))]
   \<and> MAX_MESSAGES \<le> length (messages (full_log_faults [Some (JsError (js ''disk full''))]))
   \<and> fst (onMessage parse_examples 0 c1 add_frame
            (full_log_faults [Some (JsError (js ''disk full''))])) =
       [Send c1 (ErrorEvent (js ''disk full''))]
   \<and> fst (onMessage parse_examples 0 c1 add_frame
            (full_log_faults [None, Some (JsError (js ''disk full''))])) =
       [Send c1 (ErrorEvent (js ''disk full''))]
   \<and> messages (snd (onMessage parse_examples 0 c1 add_frame
                       (full_log_faults [None, Some (JsError (js ''disk full''))]))) =
       map numbered [1..<1000] @ [hello]
   \<and> table (storage (snd (onMessage parse_examples 0 c1 add_frame
                             (full_log_faults [None, Some (JsError (js ''disk full''))]))))
        (msg_id hello) = None"
proof -
  have v: "valid (validateMessage (as_ChatMessage add_value))"
    by (simp add: as_ChatMessage_add_value hello_valid)
  have ty: "JStr (js ''add'') = JStr (js ''add'') \<or> JStr (js ''add'') = JStr (js ''update'')"
    by simp
  have start: "messages (failing_store e) = []" "table (storage (failing_store e)) = Map.empty"
    "faults (storage (failing_store e)) = [Some e]" for e
    by (simp_all add: failing_store_def initial_def)
  have up: "upsert_log hello [] = [hello]"
    by (simp add: upsert_log_def MAX_MESSAGES_def)
  have w: "fst (onMessage parse_examples 0 c1 add_frame (failing_store e)) =
             [Send c1 (ErrorEvent (case e of JsError msg \<Rightarrow> msg
                                   | JsThrown v \<Rightarrow> js ''Failed to save message''))]
           \<and> messages (snd (onMessage parse_examples 0 c1 add_frame (failing_store e))) = [hello]
           \<and> table (storage (snd (onMessage parse_examples 0 c1 add_frame (failing_store e))))
                (msg_id hello) = None" for e
    using save_failure_reported
      [where JSON_parse = parse_examples and message = add_frame and parsed = add_value
         and ty = "JStr (js ''add'')" and now = 0 and c = c1 and s = "failing_store e"
         and e = e and fs = "[]" and conns = "[c1]",
       OF parse_add_frame add_value_type ty failing_store_admitted v]
    by (simp add: as_ChatMessage_add_value start up)
  let ?e = "JsError (js ''disk full'')"
  have admitted: "checkRateLimit 0 c1 (full_log_faults fs) =
      (True, (full_log_faults fs)\<lparr>rateLimitMap :=
                (rateLimitMap (full_log_faults fs))(c1 \<mapsto> \<lparr>count = 1, windowStart = 0\<rparr>)\<rparr>)" for fs
    by (rule checkRateLimit_new) (rule full_log_faults_state)
  have full: "MAX_MESSAGES \<le> length (messages (full_log_faults fs))" for fs
    by (simp add: full_log_faults_state full_log_messages(1))
  have absent: "findIndex (\<lambda>x. strict_eq (msg_id x) (msg_id (as_ChatMessage add_value)))
      (messages (full_log_faults fs)) = None" for fs
    by (simp only: as_ChatMessage_add_value full_log_faults_state hello_not_in_full_log)
  have ids: "\<forall>x \<in> set (messages (full_log_faults fs)). typeof (msg_id x) = TString" for fs
    using full_log_string_ids by (simp add: full_log_faults_state(1))
  have evicted: "upsert_log hello (messages full_log) = map numbered [1..<1000] @ [hello]"
    using hello_not_in_full_log full_log_messages(1)
    by (simp add: upsert_log_def) (simp add: full_log_messages(2))
  have d: "fst (onMessage parse_examples 0 c1 add_frame (full_log_faults [Some ?e])) =
             [Send c1 (ErrorEvent (js ''disk full''))]"
    using save_failure_reported
      [where JSON_parse = parse_examples and message = add_frame and parsed = add_value
         and ty = "JStr (js ''add'')" and now = 0 and c = c1
         and s = "full_log_faults [Some ?e]" and e = ?e and fs = "[]" and conns = "[c1]",
       OF parse_add_frame add_value_type ty admitted v]
    by (simp add: full_log_faults_state)
  have u: "fst (onMessage parse_examples 0 c1 add_frame (full_log_faults [None, Some ?e])) =
             [Send c1 (ErrorEvent (js ''disk full''))]
           \<and> messages (snd (onMessage parse_examples 0 c1 add_frame
                               (full_log_faults [None, Some ?e]))) =
               map numbered [1..<1000] @ [hello]
           \<and> table (storage (snd (onMessage parse_examples 0 c1 add_frame
                                     (full_log_faults [None, Some ?e])))) (msg_id hello) = None"
    using save_failure_reported
      [where JSON_parse = parse_examples and message = add_frame and parsed = add_value
         and ty = "JStr (js ''add'')" and now = 0 and c = c1
         and s = "full_log_faults [None, Some ?e]" and e = ?e and fs = "[]" and conns = "[c1]",
       OF parse_add_frame add_value_type ty admitted v]
      absent [of "[None, Some ?e]"] full [of "[None, Some ?e]"] ids [of "[None, Some ?e]"]
    by (simp add: as_ChatMessage_add_value full_log_faults_state evicted)
  from w [of ?e] w [of "JsThrown JNull"] full [of "[Some ?e]"] d u show ?thesis
    by simp
qed

section \<open>Replacing in place\<close>

lemma findIndex_distinct:
  assumes "distinct (map msg_id xs)" and "i < length xs" and "msg_id (xs ! i) = JStr k"
  shows "findIndex (\<lambda>x. strict_eq (msg_id x) (JStr k)) xs = Some i"
proof (rule findIndex_first)
  show "i < length xs" by fact
  show "strict_eq (msg_id (xs ! i)) (JStr k)"
    using assms(3) by simp
  show "\<forall>j<i. \<not> strict_eq (msg_id (xs ! j)) (JStr k)"
  proof (intro allI impI)
    fix j assume "j < i"
    with assms(2) have "j < length (map msg_id xs)" "i < length (map msg_id xs)" "j \<noteq> i"
      by simp_all
    with assms(1) have "(map msg_id xs ! j = map msg_id xs ! i) = (j = i)"
      by (intro nth_eq_iff_index_eq)
    with assms(2,3) \<open>j < i\<close> show "\<not> strict_eq (msg_id (xs ! j)) (JStr k)"
      by simp
  qed
qed

lemma upsert_log_distinct:
  assumes "valid (validateMessage m)" and "distinct (map msg_id xs)"
  shows "distinct (map msg_id (upsert_log m xs))"
proof -
  from assms(1) obtain k where k: "msg_id m = JStr k"
    using valid_msg_id by blast
  show ?thesis
  proof (cases "findIndex (\<lambda>x. strict_eq (msg_id x) (msg_id m)) xs")
    case None
    then have "msg_id m \<notin> set (map msg_id xs)"
      by (auto simp: findIndex_None_iff k)
    with assms(2) have "distinct (map msg_id (xs @ [m]))"
      by simp
    then have "distinct (map msg_id (tl (xs @ [m])))"
      by (simp add: map_tl distinct_tl del: map_append)
    with \<open>distinct (map msg_id (xs @ [m]))\<close> None show ?thesis
      by (simp add: upsert_log_def)
  next
    case (Some i)
    then have "i < length xs" "msg_id (xs ! i) = msg_id m"
      by (auto dest: findIndex_Some_D simp: k)
    then have "map msg_id (xs[i := m]) = map msg_id xs"
      by (simp add: map_update list_update_same_conv)
    with assms(2) Some show ?thesis
      by (simp add: upsert_log_def)
  qed
qed

lemma filter_distinct_key:
  "distinct (map f ys) \<Longrightarrow> y \<in> set ys \<Longrightarrow> filter (\<lambda>x. f x = f y) ys = [y]"
proof (induction ys)
  case Nil
  then show ?case by simp
next
  case (Cons a ys)
  show ?case
  proof (cases "a = y")
    case True
    with Cons.prems have "f y \<notin> f ` set ys"
      by simp
    then have "\<forall>x \<in> set ys. f x \<noteq> f y"
      by (metis imageI)
    then have "filter (\<lambda>x. f x = f y) ys = []"
      by (simp add: filter_empty_conv)
    with True show ?thesis by simp
  next
    case False
    with Cons.prems have "y \<in> set ys" "f a \<noteq> f y"
      by auto
    with Cons show ?thesis by simp
  qed
qed

text \<open>
  Claim C9. In a log whose entries have distinct ids (the data model's invariant, which
  every handler preserves), for every valid message \<open>m\<close> whose id equals the id of the
  entry at position \<open>i\<close>, \<open>saveMessage\<close> replaces the entry at position \<open>i\<close> with
  \<open>m\<close> and changes no other entry and no position. An \<open>add\<close> followed by an
  \<open>update\<close> with the same id leaves exactly one entry with that id, at the position
  the \<open>add\<close> gave it, and that entry is the message of the \<open>update\<close> with its
  content, user, role and timestamp.
\<close>

theorem replace_in_place:
  assumes "valid (validateMessage m)" and "distinct (map msg_id (messages s))"
  shows "(\<forall>i. i < length (messages s) \<and> msg_id (messages s ! i) = msg_id m \<longrightarrow>
            messages (snd (saveMessage m s)) = (messages s)[i := m])
         \<and> distinct (map msg_id (messages (snd (saveMessage m s))))
         \<and> (\<forall>a. valid (validateMessage a) \<and> msg_id a = msg_id m \<longrightarrow>
              (\<exists>i. i < length (messages (snd (saveMessage a s)))
                   \<and> messages (snd (saveMessage a s)) ! i = a
                   \<and> messages (snd (saveMessage m (snd (saveMessage a s)))) =
                       (messages (snd (saveMessage a s)))[i := m]
                   \<and> filter (\<lambda>x. msg_id x = msg_id m)
                        (messages (snd (saveMessage m (snd (saveMessage a s))))) = [m]))"
proof -
  from assms(1) obtain k where k: "msg_id m = JStr k"
    using valid_msg_id by blast
  have replace: "messages (snd (saveMessage m t)) = (messages t)[i := m]"
    if "distinct (map msg_id (messages t))" "i < length (messages t)"
      "msg_id (messages t ! i) = msg_id m" for t i
  proof -
    from that have "findIndex (\<lambda>x. strict_eq (msg_id x) (msg_id m)) (messages t) = Some i"
      unfolding k by (intro findIndex_distinct) simp_all
    then show ?thesis
      by (simp add: saveMessage_messages [OF assms(1)] upsert_log_def)
  qed
  have 1: "\<forall>i. i < length (messages s) \<and> msg_id (messages s ! i) = msg_id m \<longrightarrow>
            messages (snd (saveMessage m s)) = (messages s)[i := m]"
    using replace [OF assms(2)] by blast
  have 2: "distinct (map msg_id (messages (snd (saveMessage m s))))"
    using assms by (simp add: saveMessage_messages upsert_log_distinct)
  have 3: "\<exists>i. i < length (messages (snd (saveMessage a s)))
                   \<and> messages (snd (saveMessage a s)) ! i = a
                   \<and> messages (snd (saveMessage m (snd (saveMessage a s)))) =
                       (messages (snd (saveMessage a s)))[i := m]
                   \<and> filter (\<lambda>x. msg_id x = msg_id m)
                        (messages (snd (saveMessage m (snd (saveMessage a s))))) = [m]"
    if a: "valid (validateMessage a)" "msg_id a = msg_id m" for a
  proof -
    let ?s1 = "snd (saveMessage a s)"
    have d1: "distinct (map msg_id (messages ?s1))"
      using a(1) assms(2) by (simp add: saveMessage_messages upsert_log_distinct)
    have "a \<in> set (messages ?s1)"
      using a(1) by (simp add: saveMessage_messages mem_upsert_log)
    then obtain i where i: "i < length (messages ?s1)" "messages ?s1 ! i = a"
      by (auto simp: in_set_conv_nth)
    with a(2) have eq: "messages (snd (saveMessage m ?s1)) = (messages ?s1)[i := m]"
      by (intro replace [OF d1]) simp_all
    have "upsert_log m (messages ?s1) = (messages ?s1)[i := m]"
      using eq saveMessage_messages [OF assms(1), of ?s1] by simp
    with upsert_log_distinct [OF assms(1) d1]
    have "distinct (map msg_id ((messages ?s1)[i := m]))"
      by simp
    moreover have "m \<in> set ((messages ?s1)[i := m])"
      using i(1) by (simp add: set_update_memI)
    ultimately have "filter (\<lambda>x. msg_id x = msg_id m) ((messages ?s1)[i := m]) = [m]"
      by (rule filter_distinct_key)
    with i eq show ?thesis
      by auto
  qed
  from 1 2 3 show ?thesis
    by blast
qed

lemma three_messages_log:
  "messages three_messages = [numbered 0, hello, numbered 2]"
  "distinct (map msg_id (messages three_messages))"
  "msg_id (messages three_messages ! 1) = msg_id edited"
  by (simp_all add: three_messages_def stored_def initial_def numbered_def hello_def edited_def
      js_def)

lemma two_messages_log:
  "messages two_messages = [numbered 0, numbered 2]"
  "distinct (map msg_id (messages two_messages))"
  by (simp_all add: two_messages_def stored_def initial_def numbered_def)

lemma hello_added_to_two:
  "messages (snd (saveMessage hello two_messages)) = [numbered 0, numbered 2, hello]"
proof -
  have "findIndex (\<lambda>x. strict_eq (msg_id x) (msg_id hello)) [numbered 0, numbered 2] = None"
    by (simp add: numbered_def hello_def js_def)
  then have "upsert_log hello [numbered 0, numbered 2] = [numbered 0, numbered 2, hello]"
    by (simp add: upsert_log_def MAX_MESSAGES_def)
  with saveMessage_messages [OF hello_valid, of two_messages] show ?thesis
    by (simp add: two_messages_log(1))
qed

theorem replace_in_place_witness:
  "valid (validateMessage edited) \<and> valid (validateMessage hello)
   \<and> msg_id hello = msg_id edited
   \<and> distinct (map msg_id (messages one_message))
   \<and> messages (snd (saveMessage edited one_message)) = (messages one_message)[0 := edited]
   \<and> messages (snd (saveMessage hello initial)) = [hello]
   \<and> messages (snd (saveMessage edited (snd (saveMessage hello initial)))) = [edited]
   \<and> filter (\<lambda>x. msg_id x = msg_id edited)
        (messages (snd (saveMessage edited (snd (saveMessage hello initial))))) = [edited]
   \<and> messages three_messages = [numbered 0, hello, numbered 2]
   \<and> distinct (map msg_id (messages three_messages))
   \<and> messages (snd (saveMessage edited three_messages)) = [numbered 0, edited, numbered 2]
   \<and> messages two_messages = [numbered 0, numbered 2]
   \<and> messages (snd (saveMessage hello two_messages)) = [numbered 0, numbered 2, hello]
   \<and> messages (snd (saveMessage edited (snd (saveMessage hello two_messages)))) =
       [numbered 0, numbered 2, edited]
   \<and> filter (\<lambda>x. msg_id x = msg_id edited)
        (messages (snd (saveMessage edited (snd (saveMessage hello two_messages))))) = [edited]"
proof -
  have ids: "msg_id hello = msg_id edited"
    by (simp add: hello_def edited_def)
  have d: "distinct (map msg_id (messages one_message))" "distinct (map msg_id (messages initial))"
    by (simp_all add: one_message_def initial_def)
  have one: "messages one_message = [hello]"
    by (simp add: one_message_def initial_def)
  have added: "messages (snd (saveMessage hello initial)) = [hello]"
    by (simp add: saveMessage_messages [OF hello_valid] upsert_log_def initial_def
        MAX_MESSAGES_def)
  from replace_in_place [OF edited_valid d(1)] one ids
  have 1: "messages (snd (saveMessage edited one_message)) = (messages one_message)[0 := edited]"
    by simp
  from replace_in_place [OF edited_valid d(2)] hello_valid ids
  obtain i where "i < length (messages (snd (saveMessage hello initial)))"
    and "messages (snd (saveMessage edited (snd (saveMessage hello initial)))) =
           (messages (snd (saveMessage hello initial)))[i := edited]"
    and "filter (\<lambda>x. msg_id x = msg_id edited)
           (messages (snd (saveMessage edited (snd (saveMessage hello initial))))) = [edited]"
    by blast
  with added have 2: "messages (snd (saveMessage edited (snd (saveMessage hello initial)))) = [edited]"
    and 3: "filter (\<lambda>x. msg_id x = msg_id edited)
           (messages (snd (saveMessage edited (snd (saveMessage hello initial))))) = [edited]"
    by simp_all
  have "1 < length (messages three_messages)"
    by (simp add: three_messages_log(1))
  with replace_in_place [OF edited_valid three_messages_log(2)] three_messages_log(3)
  have "messages (snd (saveMessage edited three_messages)) = (messages three_messages)[1 := edited]"
    by blast
  then have 4: "messages (snd (saveMessage edited three_messages)) = [numbered 0, edited, numbered 2]"
    by (simp add: three_messages_log(1))
  let ?s1 = "snd (saveMessage hello two_messages)"
  from replace_in_place [OF hello_valid two_messages_log(2)]
  have d1: "distinct (map msg_id (messages ?s1))"
    by blast
  have "2 < length (messages ?s1)" "msg_id (messages ?s1 ! 2) = msg_id edited"
    by (simp_all add: hello_added_to_two ids)
  with replace_in_place [OF edited_valid d1]
  have "messages (snd (saveMessage edited ?s1)) = (messages ?s1)[2 := edited]"
    by blast
  then have 5: "messages (snd (saveMessage edited ?s1)) = [numbered 0, numbered 2, edited]"
    by (simp add: hello_added_to_two)
  from replace_in_place [OF edited_valid two_messages_log(2)] hello_valid ids
  have 6: "filter (\<lambda>x. msg_id x = msg_id edited) (messages (snd (saveMessage edited ?s1))) = [edited]"
    by blast
  from edited_valid hello_valid ids d(1) 1 added 2 3 three_messages_log(1,2) 4
    two_messages_log(1) hello_added_to_two 5 6
  show ?thesis
    by blast
qed

lemma onMessage_string_ids:
  assumes "\<forall>x \<in> set (messages s). typeof (msg_id x) = TString"
  shows "\<forall>x \<in> set (messages (snd (onMessage JSON_parse now c message s))).
           typeof (msg_id x) = TString"
proof -
  obtain ok s1 where r: "checkRateLimit now c s = (ok, s1)"
    by (cases "checkRateLimit now c s")
  then have s1: "messages s1 = messages s"
    using checkRateLimit_frame(1) [of now c s] by simp
  have save: "\<forall>x \<in> set (messages (snd (saveMessage m s1))). typeof (msg_id x) = TString" for m
    using assms s1 by (intro saveMessage_string_ids) simp
  have del: "\<forall>x \<in> set (messages (snd (deleteMessage k s1))). typeof (msg_id x) = TString" for k
    using assms s1 by (simp add: deleteMessage_def exec_messages_update)
  show ?thesis
    using assms s1 save [of "as_ChatMessage (the (JSON_parse message))"]
      del [of "field (the (JSON_parse message)) (js ''id'')"]
    by (auto simp: onMessage_def onMessage_try_def r
        split: bool.splits option.splits sum.splits prod.splits)
qed

lemma saveMessage_distinct:
  "distinct (map msg_id (messages s)) \<Longrightarrow>
   distinct (map msg_id (messages (snd (saveMessage m s))))"
  by (cases "valid (validateMessage m)")
    (simp_all add: saveMessage_messages upsert_log_distinct saveMessage_invalid)

lemma deleteMessage_messages:
  "messages (snd (deleteMessage k s)) = filter (\<lambda>m. \<not> strict_eq (msg_id m) k) (messages s)"
  by (simp add: deleteMessage_def exec_messages_update)

lemma onMessage_distinct:
  assumes "distinct (map msg_id (messages s))"
  shows "distinct (map msg_id (messages (snd (onMessage JSON_parse now c message s))))"
proof -
  obtain ok s1 where r: "checkRateLimit now c s = (ok, s1)"
    by (cases "checkRateLimit now c s")
  then have s1: "messages s1 = messages s"
    using checkRateLimit_frame(1) [of now c s] by simp
  have save: "distinct (map msg_id (messages (snd (saveMessage m s1))))" for m
    using assms s1 by (simp add: saveMessage_distinct)
  have del: "distinct (map msg_id (messages (snd (deleteMessage k s1))))" for k
    using assms s1 by (simp add: deleteMessage_messages distinct_map_filter)
  show ?thesis
    using assms s1 save [of "as_ChatMessage (the (JSON_parse message))"]
      del [of "field (the (JSON_parse message)) (js ''id'')"]
    by (auto simp: onMessage_def onMessage_try_def r
        split: bool.splits option.splits sum.splits prod.splits)
qed

section \<open>Deleting\<close>












end
